theory Spec2Isabelle
  imports Main
begin

section \<open>Data model (events.go)\<close>

text \<open>
  A Go \<^verbatim>\<open>error\<close> value is modelled by its message; the nil error is \<open>None\<close>
  of \<open>error option\<close>. A channel is identified by a number; \<^verbatim>\<open>make(chan ...)\<close>
  takes the next unused number.
\<close>

type_synonym error = string
type_synonym chan = nat

text \<open>
  A value of type \<^verbatim>\<open>interface{}\<close>: either nil or a dynamic type (by name)
  together with a value. \<open>TypeOf\<close> is \<^verbatim>\<open>reflect.TypeOf\<close>, which yields the
  nil type for a nil interface.
\<close>

datatype 'v iface = Nil | Iface string 'v

fun TypeOf :: "'v iface \<Rightarrow> string option" where
  "TypeOf Nil = None"
| "TypeOf (Iface t v) = Some t"

record 'v VersionedEvent =
  ID :: string
  CorrelationID :: string
  SourceID :: string
  Version :: int
  EventType :: string
  Created :: int
  Event :: "'v iface"

text \<open>
  \<^verbatim>\<open>type VersionedEventHandler func(VersionedEvent) error\<close>. A handler is a closure;
  the mutable state its calls read and write is the explicit state \<open>'st\<close>.
\<close>

type_synonym ('v, 'st) VersionedEventHandler =
  "'v VersionedEvent \<Rightarrow> 'st \<Rightarrow> error option \<times> 'st"

record ('v, 'st) MapBasedVersionedEventDispatcher =
  registry :: "string option \<rightharpoonup> ('v, 'st) VersionedEventHandler list"
  globalHandlers :: "('v, 'st) VersionedEventHandler list"

section \<open>The map based dispatcher\<close>

definition NewVersionedEventDispatcher :: "('v, 'st) MapBasedVersionedEventDispatcher" where
  "NewVersionedEventDispatcher = \<lparr>registry = Map.empty, globalHandlers = []\<rparr>"

definition RegisterEventHandler ::
  "'v iface \<Rightarrow> ('v, 'st) VersionedEventHandler \<Rightarrow> ('v, 'st) MapBasedVersionedEventDispatcher
    \<Rightarrow> ('v, 'st) MapBasedVersionedEventDispatcher" where
  "RegisterEventHandler event handler m =
     (let eventType = TypeOf event in
      case registry m eventType of
        Some handlers \<Rightarrow> m\<lparr>registry := (registry m)(eventType \<mapsto> handlers @ [handler])\<rparr>
      | None \<Rightarrow> m\<lparr>registry := (registry m)(eventType \<mapsto> [handler])\<rparr>)"

definition RegisterGlobalHandler ::
  "('v, 'st) VersionedEventHandler \<Rightarrow> ('v, 'st) MapBasedVersionedEventDispatcher
    \<Rightarrow> ('v, 'st) MapBasedVersionedEventDispatcher" where
  "RegisterGlobalHandler handler m = m\<lparr>globalHandlers := globalHandlers m @ [handler]\<rparr>"

text \<open>
  The loop \<^verbatim>\<open>for _, handler := range handlers { if err := handler(event); err != nil
  { return err } }\<close>: the result is \<open>Some err\<close> when the loop leaves the function early,
  \<open>None\<close> when it runs to its end.
\<close>

fun range_handlers ::
  "('v, 'st) VersionedEventHandler list \<Rightarrow> 'v VersionedEvent \<Rightarrow> 'st \<Rightarrow> error option \<times> 'st" where
  "range_handlers [] event s = (None, s)"
| "range_handlers (handler # handlers) event s =
     (case handler event s of
        (Some err, s') \<Rightarrow> (Some err, s')
      | (None, s') \<Rightarrow> range_handlers handlers event s')"

definition DispatchEvent ::
  "('v, 'st) MapBasedVersionedEventDispatcher \<Rightarrow> 'v VersionedEvent \<Rightarrow> 'st \<Rightarrow> error option \<times> 'st" where
  "DispatchEvent m event s =
     (let eventType = TypeOf (Event event) in
      case registry m eventType of
        Some handlers \<Rightarrow>
          (case range_handlers handlers event s of
             (Some err, s') \<Rightarrow> (Some err, s')
           | (None, s') \<Rightarrow> range_handlers (globalHandlers m) event s')
      | None \<Rightarrow> range_handlers (globalHandlers m) event s)"

text \<open>
  Specification vocabulary: the state reached when every handler of a list is invoked in
  order, and the condition that none of them reports an error on the way.
\<close>

definition invoke_all ::
  "('v, 'st) VersionedEventHandler list \<Rightarrow> 'v VersionedEvent \<Rightarrow> 'st \<Rightarrow> 'st" where
  "invoke_all handlers event s = foldl (\<lambda>s' handler. snd (handler event s')) s handlers"

definition no_errors ::
  "('v, 'st) VersionedEventHandler list \<Rightarrow> 'v VersionedEvent \<Rightarrow> 'st \<Rightarrow> bool" where
  "no_errors handlers event s =
     (\<forall>i < length handlers. fst ((handlers ! i) event (invoke_all (take i handlers) event s)) = None)"

definition handlers_for ::
  "('v, 'st) MapBasedVersionedEventDispatcher \<Rightarrow> string option \<Rightarrow> ('v, 'st) VersionedEventHandler list" where
  "handlers_for m t = (case registry m t of Some handlers \<Rightarrow> handlers | None \<Rightarrow> [])"

section \<open>The dispatch manager's listen loop\<close>

text \<open>
  \<^verbatim>\<open>VersionedEventTransactedAccept\<close> (its field \<^verbatim>\<open>Event\<close> is called \<open>Accepted\<close>
  here, the name \<open>Event\<close> being taken by the payload field of \<open>VersionedEvent\<close>) and
  \<^verbatim>\<open>VersionedEventReceiverOptions\<close>. The options' \<^verbatim>\<open>TypeRegistry\<close> field is left
  out: its type is declared outside events.go, and neither \<^verbatim>\<open>Listen\<close> nor the
  in-memory bus reads it.
\<close>

record 'v VersionedEventTransactedAccept =
  Accepted :: "'v VersionedEvent"
  ProcessedSuccessfully :: chan

record VersionedEventReceiverOptions =
  Close :: chan
  Error :: chan
  ReceiveEvent :: chan
  Exclusive :: bool

text \<open>The lines \<^verbatim>\<open>Listen\<close> writes with \<^verbatim>\<open>log.Println\<close>.\<close>

datatype 'v log_line =
    Log_DispatchEvent "'v VersionedEvent"
  | Log_ErrorDispatching error
  | Log_DispatchSuccessful
  | Log_Stopping
  | Log_Stopped
  | Log_ErrorReceived "error option"

text \<open>
  The three \<^verbatim>\<open>return\<close> statements of \<^verbatim>\<open>Listen\<close>: line 159 (the receiver did not
  start), line 180 (stop) and line 184 (error channel).
\<close>

datatype listen_exit = Exit_Receiver | Exit_Stop | Exit_Error

text \<open>
  Where the goroutine running \<^verbatim>\<open>Listen\<close> stands. Between two channel operations the
  code runs without blocking, so the control points are: the entry, the \<^verbatim>\<open>select\<close> of
  line 164, the send of line 173, the send of line 178, the receive of line 180, and the
  return.
\<close>

datatype listen_pc =
    L_Start
  | L_Select
  | L_SendAck chan
  | L_SendClose chan
  | L_RecvClose chan
  | L_Returned listen_exit "error option"

record ('v, 'st) listen_frame =
  pc :: listen_pc
  options :: VersionedEventReceiverOptions
  handler_state :: 'st
  logged :: "'v log_line list"

text \<open>
  What \<^verbatim>\<open>Listen\<close> exchanges with the other goroutines: the call of the receiver's
  \<^verbatim>\<open>ReceiveEvents\<close> with its result, and one constructor for each channel operation
  (a value received or a value sent, with the channel where the code computes it).
\<close>

datatype 'v listen_comm =
    Call_Receiver VersionedEventReceiverOptions "error option"
  | Receive_Event "'v VersionedEventTransactedAccept"
  | Send_Ack chan bool
  | Receive_Stop
  | Send_Close chan chan
  | Receive_CloseReply chan "error option"
  | Receive_Error "error option"

definition Listen_entry :: "'st \<Rightarrow> ('v, 'st) listen_frame" where
  "Listen_entry st =
     \<lparr>pc = L_Start, options = \<lparr>Close = 0, Error = 0, ReceiveEvent = 0, Exclusive = False\<rparr>,
      handler_state = st, logged = []\<rparr>"

text \<open>
  One step of \<^verbatim>\<open>Listen(stop, exclusive)\<close>. \<open>fresh\<close> is the channel the next
  \<^verbatim>\<open>make\<close> returns (the following ones are \<open>fresh + 1\<close>, \<open>fresh + 2\<close>). The result is
  \<open>None\<close> when the code does not offer that exchange at its control point.
\<close>

fun Listen_step ::
  "('v, 'st) MapBasedVersionedEventDispatcher \<Rightarrow> bool \<Rightarrow> chan \<Rightarrow> 'v listen_comm
    \<Rightarrow> ('v, 'st) listen_frame \<Rightarrow> ('v, 'st) listen_frame option" where
  "Listen_step m exclusive fresh (Call_Receiver opts err) f =
     (if pc f = L_Start \<and>
         opts = \<lparr>Close = fresh, Error = fresh + 1, ReceiveEvent = fresh + 2, Exclusive = exclusive\<rparr>
      then (case err of
              Some e \<Rightarrow> Some (f\<lparr>pc := L_Returned Exit_Receiver (Some e), options := opts\<rparr>)
            | None \<Rightarrow> Some (f\<lparr>pc := L_Select, options := opts\<rparr>))
      else None)"
| "Listen_step m exclusive fresh (Receive_Event event) f =
     (if pc f = L_Select
      then (case DispatchEvent m (Accepted event) (handler_state f) of
              (Some err, st) \<Rightarrow>
                Some (f\<lparr>pc := L_SendAck (ProcessedSuccessfully event), handler_state := st,
                        logged := logged f @ [Log_DispatchEvent (Accepted event), Log_ErrorDispatching err]\<rparr>)
            | (None, st) \<Rightarrow>
                Some (f\<lparr>pc := L_SendAck (ProcessedSuccessfully event), handler_state := st,
                        logged := logged f @ [Log_DispatchEvent (Accepted event)]\<rparr>))
      else None)"
| "Listen_step m exclusive fresh (Send_Ack c v) f =
     (if pc f = L_SendAck c \<and> v
      then Some (f\<lparr>pc := L_Select, logged := logged f @ [Log_DispatchSuccessful]\<rparr>)
      else None)"
| "Listen_step m exclusive fresh Receive_Stop f =
     (if pc f = L_Select
      then Some (f\<lparr>pc := L_SendClose fresh, logged := logged f @ [Log_Stopping]\<rparr>)
      else None)"
| "Listen_step m exclusive fresh (Send_Close c closeSignal) f =
     (if pc f = L_SendClose closeSignal \<and> c = Close (options f)
      then Some (f\<lparr>pc := L_RecvClose closeSignal\<rparr>)
      else None)"
| "Listen_step m exclusive fresh (Receive_CloseReply c r) f =
     (if pc f = L_RecvClose c
      then Some (f\<lparr>pc := L_Returned Exit_Stop r, logged := logged f @ [Log_Stopped]\<rparr>)
      else None)"
| "Listen_step m exclusive fresh (Receive_Error err) f =
     (if pc f = L_Select
      then Some (f\<lparr>pc := L_Returned Exit_Error err, logged := logged f @ [Log_ErrorReceived err]\<rparr>)
      else None)"

text \<open>A run of \<^verbatim>\<open>Listen\<close> against any environment: each exchange with the channel
  \<^verbatim>\<open>make\<close> would return at that moment.\<close>

fun Listen_run ::
  "('v, 'st) MapBasedVersionedEventDispatcher \<Rightarrow> bool \<Rightarrow> (chan \<times> 'v listen_comm) list
    \<Rightarrow> ('v, 'st) listen_frame \<Rightarrow> ('v, 'st) listen_frame option" where
  "Listen_run m exclusive [] f = Some f"
| "Listen_run m exclusive ((fresh, c) # cs) f =
     (case Listen_step m exclusive fresh c f of
        None \<Rightarrow> None
      | Some f' \<Rightarrow> Listen_run m exclusive cs f')"

section \<open>The in-memory event bus\<close>

record InMemoryEventBus =
  publishedEventsChannel :: chan
  startReceiving :: bool

definition NewInMemoryEventBus :: "chan \<Rightarrow> InMemoryEventBus" where
  "NewInMemoryEventBus fresh = \<lparr>publishedEventsChannel = fresh, startReceiving = False\<rparr>"

text \<open>
  The goroutine started by \<^verbatim>\<open>ReceiveEvents\<close> (lines 219 to 230): at the \<^verbatim>\<open>select\<close>,
  sending nil on a close request's channel (line 223), sending the accept message on
  \<^verbatim>\<open>options.ReceiveEvent\<close> (line 226), or receiving from \<^verbatim>\<open>ackCh\<close> (line 227). The
  \<^verbatim>\<open>for\<close> has no exit, so there is no control point after it.
\<close>

datatype 'v loop_pc =
    B_Select
  | B_Reply chan
  | B_Hand "'v VersionedEventTransactedAccept"
  | B_WaitAck chan

record 'v receive_loop =
  loop_options :: VersionedEventReceiverOptions
  loop_pc :: "'v loop_pc"

text \<open>
  \<^verbatim>\<open>ReceiveEvents\<close> sets the flag, starts the goroutine and returns nil. The result is
  the returned error, the bus and the new goroutine.
\<close>

definition ReceiveEvents ::
  "VersionedEventReceiverOptions \<Rightarrow> InMemoryEventBus
    \<Rightarrow> error option \<times> InMemoryEventBus \<times> 'v receive_loop" where
  "ReceiveEvents opts b =
     (None, b\<lparr>startReceiving := True\<rparr>, \<lparr>loop_options = opts, loop_pc = B_Select\<rparr>)"

datatype 'v loop_comm =
    Take_Close chan chan
  | Take_Published chan "'v VersionedEvent"
  | Give_Reply chan "error option"
  | Give_Event chan "'v VersionedEventTransactedAccept"
  | Take_Ack chan

text \<open>
  One step of the goroutine on bus \<open>b\<close>; \<open>fresh\<close> is the channel the next \<^verbatim>\<open>make\<close>
  returns. \<open>Take_Close c ch\<close> receives \<open>ch\<close> from channel \<open>c\<close>, and so on.
\<close>

fun loop_step ::
  "InMemoryEventBus \<Rightarrow> chan \<Rightarrow> 'v loop_comm \<Rightarrow> 'v receive_loop \<Rightarrow> 'v receive_loop option" where
  "loop_step b fresh (Take_Close c ch) g =
     (if loop_pc g = B_Select \<and> c = Close (loop_options g)
      then Some (g\<lparr>loop_pc := B_Reply ch\<rparr>) else None)"
| "loop_step b fresh (Take_Published c versionedEvent) g =
     (if loop_pc g = B_Select \<and> c = publishedEventsChannel b
      then Some (g\<lparr>loop_pc := B_Hand \<lparr>Accepted = versionedEvent, ProcessedSuccessfully = fresh\<rparr>\<rparr>)
      else None)"
| "loop_step b fresh (Give_Reply c r) g =
     (if loop_pc g = B_Reply c \<and> r = None
      then Some (g\<lparr>loop_pc := B_Select\<rparr>) else None)"
| "loop_step b fresh (Give_Event c accept) g =
     (if loop_pc g = B_Hand accept \<and> c = ReceiveEvent (loop_options g)
      then Some (g\<lparr>loop_pc := B_WaitAck (ProcessedSuccessfully accept)\<rparr>) else None)"
| "loop_step b fresh (Take_Ack c) g =
     (if loop_pc g = B_WaitAck c
      then Some (g\<lparr>loop_pc := B_Select\<rparr>) else None)"

text \<open>
  \<^verbatim>\<open>PublishEvents\<close>: line 204 either returns nil at once (\<open>Inl\<close>) or enters the loop of
  line 208 with all events still to send (\<open>Inr\<close>). In the loop the goroutine is blocked
  sending the head of the remaining events on \<^verbatim>\<open>publishedEventsChannel\<close>; with none
  left it returns nil (line 212).
\<close>

definition PublishEvents_entry ::
  "InMemoryEventBus \<Rightarrow> 'v VersionedEvent list \<Rightarrow> error option + 'v VersionedEvent list" where
  "PublishEvents_entry b events = (if \<not> startReceiving b then Inl None else Inr events)"

fun PublishEvents_send ::
  "InMemoryEventBus \<Rightarrow> 'v VersionedEvent list \<Rightarrow> (chan \<times> 'v VersionedEvent \<times> 'v VersionedEvent list) option" where
  "PublishEvents_send b [] = None"
| "PublishEvents_send b (event # events) = Some (publishedEventsChannel b, event, events)"

fun PublishEvents_return :: "'v VersionedEvent list \<Rightarrow> error option option" where
  "PublishEvents_return [] = Some None"
| "PublishEvents_return (event # events) = None"

text \<open>
  A publishing goroutine: it calls \<^verbatim>\<open>PublishEvents\<close> once for each batch of \<open>calls\<close>, in
  order. \<open>sending\<close> holds the events the running call has still to send, and \<open>returned\<close>
  the results of the calls that have returned.
\<close>

record 'v publisher =
  calls :: "'v VersionedEvent list list"
  sending :: "'v VersionedEvent list option"
  returned :: "error option list"

section \<open>The system: one publisher, the bus, one dispatch manager\<close>

record ('v, 'st) system =
  dispatcher :: "('v, 'st) MapBasedVersionedEventDispatcher"
  exclusive :: bool
  bus :: InMemoryEventBus
  loop :: "'v receive_loop option"
  manager :: "('v, 'st) listen_frame"
  publisher :: "'v publisher"
  next_chan :: chan

text \<open>
  The program: a bus from \<^verbatim>\<open>NewInMemoryEventBus\<close>, a dispatch manager on it whose
  \<^verbatim>\<open>Listen\<close> has not started yet, and a goroutine that will publish the given batches.
\<close>

definition initial ::
  "('v, 'st) MapBasedVersionedEventDispatcher \<Rightarrow> bool \<Rightarrow> 'st \<Rightarrow> 'v VersionedEvent list list
    \<Rightarrow> ('v, 'st) system" where
  "initial m excl st batches =
     \<lparr>dispatcher = m, exclusive = excl, bus = NewInMemoryEventBus 0, loop = None,
      manager = Listen_entry st,
      publisher = \<lparr>calls = batches, sending = None, returned = []\<rparr>,
      next_chan = 1\<rparr>"

text \<open>
  What can happen next in the system. Unbuffered channels make every send one step with
  the matching receive. The stop channel belongs to the environment, which may send on
  it at any time.
\<close>

datatype 'v event =
    Listen_Starts
  | Publish_Called
  | Publish_Sent "'v VersionedEvent"
  | Publish_Returned
  | Delivered "'v VersionedEvent"
  | Acked
  | Stop_Received
  | Close_Requested
  | Close_Replied

fun step :: "('v, 'st) system \<Rightarrow> 'v event \<Rightarrow> ('v, 'st) system option" where
  "step s Listen_Starts =
     (let opts = \<lparr>Close = next_chan s, Error = next_chan s + 1, ReceiveEvent = next_chan s + 2,
                  Exclusive = exclusive s\<rparr>
      in case ReceiveEvents opts (bus s) of (err, b, g) \<Rightarrow>
        (case Listen_step (dispatcher s) (exclusive s) (next_chan s) (Call_Receiver opts err) (manager s) of
           None \<Rightarrow> None
         | Some f \<Rightarrow> Some (s\<lparr>bus := b, loop := Some g, manager := f, next_chan := next_chan s + 3\<rparr>)))"
| "step s Publish_Called =
     (case (sending (publisher s), calls (publisher s)) of
        (None, events # rest) \<Rightarrow>
          (case PublishEvents_entry (bus s) events of
             Inl r \<Rightarrow> Some (s\<lparr>publisher := (publisher s)\<lparr>calls := rest,
                              returned := returned (publisher s) @ [r]\<rparr>\<rparr>)
           | Inr todo \<Rightarrow> Some (s\<lparr>publisher := (publisher s)\<lparr>calls := rest, sending := Some todo\<rparr>\<rparr>))
      | _ \<Rightarrow> None)"
| "step s (Publish_Sent e) =
     (case (sending (publisher s), loop s) of
        (Some todo, Some g) \<Rightarrow>
          (case PublishEvents_send (bus s) todo of
             Some (c, event, todo') \<Rightarrow>
               (if event = e then
                  (case loop_step (bus s) (next_chan s) (Take_Published c event) g of
                     Some g' \<Rightarrow> Some (s\<lparr>publisher := (publisher s)\<lparr>sending := Some todo'\<rparr>,
                                        loop := Some g', next_chan := next_chan s + 1\<rparr>)
                   | None \<Rightarrow> None)
                else None)
           | None \<Rightarrow> None)
      | _ \<Rightarrow> None)"
| "step s Publish_Returned =
     (case sending (publisher s) of
        Some todo \<Rightarrow>
          (case PublishEvents_return todo of
             Some r \<Rightarrow> Some (s\<lparr>publisher := (publisher s)\<lparr>sending := None,
                               returned := returned (publisher s) @ [r]\<rparr>\<rparr>)
           | None \<Rightarrow> None)
      | None \<Rightarrow> None)"
| "step s (Delivered e) =
     (case loop s of
        Some g \<Rightarrow>
          (case loop_pc g of
             B_Hand accept \<Rightarrow>
               (if Accepted accept = e \<and> ReceiveEvent (loop_options g) = ReceiveEvent (options (manager s))
                then (case (loop_step (bus s) (next_chan s) (Give_Event (ReceiveEvent (loop_options g)) accept) g,
                            Listen_step (dispatcher s) (exclusive s) (next_chan s) (Receive_Event accept) (manager s)) of
                        (Some g', Some f) \<Rightarrow> Some (s\<lparr>loop := Some g', manager := f\<rparr>)
                      | _ \<Rightarrow> None)
                else None)
           | _ \<Rightarrow> None)
      | None \<Rightarrow> None)"
| "step s Acked =
     (case (pc (manager s), loop s) of
        (L_SendAck c, Some g) \<Rightarrow>
          (case (Listen_step (dispatcher s) (exclusive s) (next_chan s) (Send_Ack c True) (manager s),
                 loop_step (bus s) (next_chan s) (Take_Ack c) g) of
             (Some f, Some g') \<Rightarrow> Some (s\<lparr>loop := Some g', manager := f\<rparr>)
           | _ \<Rightarrow> None)
      | _ \<Rightarrow> None)"
| "step s Stop_Received =
     (case Listen_step (dispatcher s) (exclusive s) (next_chan s) Receive_Stop (manager s) of
        Some f \<Rightarrow> Some (s\<lparr>manager := f, next_chan := next_chan s + 1\<rparr>)
      | None \<Rightarrow> None)"
| "step s Close_Requested =
     (case (pc (manager s), loop s) of
        (L_SendClose closeSignal, Some g) \<Rightarrow>
          (case (Listen_step (dispatcher s) (exclusive s) (next_chan s)
                   (Send_Close (Close (options (manager s))) closeSignal) (manager s),
                 loop_step (bus s) (next_chan s) (Take_Close (Close (options (manager s))) closeSignal) g) of
             (Some f, Some g') \<Rightarrow> Some (s\<lparr>loop := Some g', manager := f\<rparr>)
           | _ \<Rightarrow> None)
      | _ \<Rightarrow> None)"
| "step s Close_Replied =
     (case loop s of
        Some g \<Rightarrow>
          (case loop_pc g of
             B_Reply ch \<Rightarrow>
               (case (loop_step (bus s) (next_chan s) (Give_Reply ch None) g,
                      Listen_step (dispatcher s) (exclusive s) (next_chan s) (Receive_CloseReply ch None) (manager s)) of
                  (Some g', Some f) \<Rightarrow> Some (s\<lparr>loop := Some g', manager := f\<rparr>)
                | _ \<Rightarrow> None)
           | _ \<Rightarrow> None)
      | None \<Rightarrow> None)"

fun exec :: "('v, 'st) system \<Rightarrow> 'v event list \<Rightarrow> ('v, 'st) system option" where
  "exec s [] = Some s"
| "exec s (e # es) = (case step s e of None \<Rightarrow> None | Some s' \<Rightarrow> exec s' es)"

section \<open>Sample handlers and dispatchers\<close>

definition log_ok :: "string \<Rightarrow> (unit, string list) VersionedEventHandler" where
  "log_ok name = (\<lambda>event s. (None, s @ [name]))"

definition log_fail :: "string \<Rightarrow> error \<Rightarrow> (unit, string list) VersionedEventHandler" where
  "log_fail name err = (\<lambda>event s. (Some err, s @ [name]))"

definition sample_event :: "string \<Rightarrow> unit VersionedEvent" where
  "sample_event t = \<lparr>ID = ''e1'', CorrelationID = ''c1'', SourceID = ''a1'', Version = 1,
     EventType = t, Created = 0, Event = Iface t ()\<rparr>"

definition dispatcher_H1_H2_H3_G :: "(unit, string list) MapBasedVersionedEventDispatcher" where
  "dispatcher_H1_H2_H3_G =
     RegisterEventHandler (Iface ''T'' ()) (log_ok ''H3'')
       (RegisterGlobalHandler (log_ok ''G'')
         (RegisterEventHandler (Iface ''T'' ()) (log_fail ''H2'' ''boom'')
           (RegisterEventHandler (Iface ''T'' ()) (log_ok ''H1'') NewVersionedEventDispatcher)))"

definition dispatcher_ok :: "(unit, string list) MapBasedVersionedEventDispatcher" where
  "dispatcher_ok =
     RegisterGlobalHandler (log_ok ''G2'')
       (RegisterEventHandler (Iface ''T'' ()) (log_ok ''H2'')
         (RegisterGlobalHandler (log_ok ''G1'')
           (RegisterEventHandler (Iface ''T'' ()) (log_ok ''H1'') NewVersionedEventDispatcher)))"

definition dispatcher_global_fail :: "(unit, string list) MapBasedVersionedEventDispatcher" where
  "dispatcher_global_fail =
     RegisterGlobalHandler (log_ok ''G3'')
       (RegisterGlobalHandler (log_fail ''G2'' ''audit failed'')
         (RegisterGlobalHandler (log_ok ''G1'')
           (RegisterEventHandler (Iface ''T'' ()) (log_ok ''H1'') NewVersionedEventDispatcher)))"

section \<open>Histories of the system\<close>

text \<open>
  A history is the list of steps taken from the initial state. From it: the events sent
  by the publisher, the events delivered to \<^verbatim>\<open>Listen\<close>, the number of acknowledgements,
  the number of \<^verbatim>\<open>PublishEvents\<close> calls, and the number of those calls made before
  \<^verbatim>\<open>ReceiveEvents\<close>.
\<close>

definition sent_events :: "'v event list \<Rightarrow> 'v VersionedEvent list" where
  "sent_events tr = concat (map (\<lambda>x. case x of Publish_Sent e \<Rightarrow> [e] | _ \<Rightarrow> []) tr)"

definition delivered_events :: "'v event list \<Rightarrow> 'v VersionedEvent list" where
  "delivered_events tr = concat (map (\<lambda>x. case x of Delivered e \<Rightarrow> [e] | _ \<Rightarrow> []) tr)"

definition acks :: "'v event list \<Rightarrow> nat" where
  "acks tr = length (filter (\<lambda>x. x = Acked) tr)"

definition called :: "'v event list \<Rightarrow> nat" where
  "called tr = length (filter (\<lambda>x. x = Publish_Called) tr)"

definition dropped :: "'v event list \<Rightarrow> nat" where
  "dropped tr = called (takeWhile (\<lambda>x. x \<noteq> Listen_Starts) tr)"

text \<open>
  From a state: the event the bus goroutine holds and has not handed over, whether
  \<^verbatim>\<open>Listen\<close> owes an acknowledgement, the events the running \<^verbatim>\<open>PublishEvents\<close> has
  still to send, and the steps that are possible.
\<close>

definition in_flight :: "('v, 'st) system \<Rightarrow> 'v VersionedEvent list" where
  "in_flight s =
     (case loop s of
        Some g \<Rightarrow> (case loop_pc g of B_Hand accept \<Rightarrow> [Accepted accept] | _ \<Rightarrow> [])
      | None \<Rightarrow> [])"

definition unacked :: "('v, 'st) system \<Rightarrow> nat" where
  "unacked s = (case pc (manager s) of L_SendAck c \<Rightarrow> 1 | _ \<Rightarrow> 0)"

definition to_send :: "('v, 'st) system \<Rightarrow> 'v VersionedEvent list" where
  "to_send s = (case sending (publisher s) of Some todo \<Rightarrow> todo | None \<Rightarrow> [])"

definition enabled :: "('v, 'st) system \<Rightarrow> 'v event list" where
  "enabled s =
     filter (\<lambda>e. step s e \<noteq> None)
       ([Listen_Starts, Publish_Called, Publish_Returned, Acked, Stop_Received, Close_Requested,
         Close_Replied]
        @ map Publish_Sent (take 1 (to_send s))
        @ map Delivered (in_flight s))"

text \<open>
  Invariants: how the control points of \<^verbatim>\<open>Listen\<close> and of the bus goroutine go
  together, and how a history relates to the state it leads to.
\<close>

definition idle_or_holding :: "'v loop_pc \<Rightarrow> bool" where
  "idle_or_holding p = (case p of B_Select \<Rightarrow> True | B_Hand accept \<Rightarrow> True | _ \<Rightarrow> False)"

definition paired :: "('v, 'st) system \<Rightarrow> bool" where
  "paired s =
     (case loop s of
        None \<Rightarrow> pc (manager s) = L_Start \<and> \<not> startReceiving (bus s)
                 \<and> sending (publisher s) = None
      | Some g \<Rightarrow>
          startReceiving (bus s) \<and> loop_options g = options (manager s) \<and>
          (case pc (manager s) of
             L_Start \<Rightarrow> False
           | L_Select \<Rightarrow> idle_or_holding (loop_pc g)
           | L_SendAck c \<Rightarrow> loop_pc g = B_WaitAck c
           | L_SendClose c \<Rightarrow> idle_or_holding (loop_pc g)
           | L_RecvClose c \<Rightarrow> loop_pc g = B_Reply c
           | L_Returned x r \<Rightarrow> x = Exit_Stop \<and> r = None \<and> idle_or_holding (loop_pc g)))"

definition dispatched ::
  "('v, 'st) MapBasedVersionedEventDispatcher \<Rightarrow> 'v VersionedEventTransactedAccept
    \<Rightarrow> ('v, 'st) listen_frame \<Rightarrow> ('v, 'st) listen_frame" where
  "dispatched m accept f =
     f\<lparr>pc := L_SendAck (ProcessedSuccessfully accept),
       handler_state := snd (DispatchEvent m (Accepted accept) (handler_state f)),
       logged := logged f @ Log_DispatchEvent (Accepted accept) #
         (case fst (DispatchEvent m (Accepted accept) (handler_state f)) of
            Some err \<Rightarrow> [Log_ErrorDispatching err] | None \<Rightarrow> [])\<rparr>"

definition history_ok ::
  "'v VersionedEvent list list \<Rightarrow> 'v event list \<Rightarrow> ('v, 'st) system \<Rightarrow> bool" where
  "history_ok batches tr s \<longleftrightarrow>
     (Listen_Starts \<in> set tr \<longleftrightarrow> startReceiving (bus s)) \<and>
     called tr \<le> length batches \<and>
     calls (publisher s) = drop (called tr) batches \<and>
     (startReceiving (bus s) \<or> dropped tr = called tr) \<and>
     dropped tr \<le> called tr \<and>
     (sending (publisher s) = None \<or> dropped tr < called tr) \<and>
     sent_events tr @ to_send s @ concat (calls (publisher s)) = concat (drop (dropped tr) batches) \<and>
     sent_events tr = delivered_events tr @ in_flight s \<and>
     length (delivered_events tr) = acks tr + unacked s \<and>
     returned (publisher s) =
       replicate (called tr - (case sending (publisher s) of Some todo \<Rightarrow> 1 | None \<Rightarrow> 0)) None"

text \<open>What is looked at in the sample runs.\<close>

definition observe ::
  "('v, 'st) system option \<Rightarrow>
    (listen_pc \<times> 'v loop_pc option \<times> 'v VersionedEvent list option \<times> error option list \<times>
     'st \<times> 'v log_line list) option" where
  "observe so =
     map_option (\<lambda>s. (pc (manager s), map_option loop_pc (loop s), sending (publisher s),
       returned (publisher s), handler_state (manager s), logged (manager s))) so"

definition deadlocked :: "('v, 'st) system option \<Rightarrow> bool" where
  "deadlocked so = (case so of Some s \<Rightarrow> enabled s = [] | None \<Rightarrow> False)"

definition sample_system :: "unit VersionedEvent list list \<Rightarrow> (unit, string list) system" where
  "sample_system batches = initial dispatcher_H1_H2_H3_G False [] batches"

text \<open>A run of the bus goroutine against any environment.\<close>

fun loop_run ::
  "InMemoryEventBus \<Rightarrow> (chan \<times> 'v loop_comm) list \<Rightarrow> 'v receive_loop \<Rightarrow> 'v receive_loop option" where
  "loop_run b [] g = Some g"
| "loop_run b ((fresh, c) # cs) g =
     (case loop_step b fresh c g of None \<Rightarrow> None | Some g' \<Rightarrow> loop_run b cs g')"

section \<open>Properties of the dispatcher\<close>

lemma invoke_all_Nil: "invoke_all [] event s = s"
  by (simp add: invoke_all_def)

lemma invoke_all_Cons: "invoke_all (h # hs) event s = invoke_all hs event (snd (h event s))"
  by (simp add: invoke_all_def)

lemma invoke_all_append:
  "invoke_all (hs @ gs) event s = invoke_all gs event (invoke_all hs event s)"
  by (simp add: invoke_all_def)

lemma no_errors_Nil: "no_errors [] event s"
  by (simp add: no_errors_def)

lemma no_errors_Cons:
  "no_errors (h # hs) event s \<longleftrightarrow> fst (h event s) = None \<and> no_errors hs event (snd (h event s))"
  by (simp add: no_errors_def All_less_Suc2 invoke_all_Nil invoke_all_Cons)

lemma range_handlers_no_errors:
  "no_errors hs event s \<Longrightarrow> range_handlers hs event s = (None, invoke_all hs event s)"
proof (induction hs arbitrary: s)
  case Nil
  show ?case by (simp add: invoke_all_Nil)
next
  case (Cons h hs)
  from Cons.prems have h: "fst (h event s) = None" and rest: "no_errors hs event (snd (h event s))"
    by (simp_all add: no_errors_Cons)
  obtain s1 where s1: "h event s = (None, s1)"
    using h by (cases "h event s") simp
  with rest Cons.IH [of s1] show ?case
    by (simp add: invoke_all_Cons)
qed

lemma range_handlers_None_iff:
  "fst (range_handlers hs event s) = None \<longleftrightarrow> no_errors hs event s"
proof (induction hs arbitrary: s)
  case Nil
  show ?case by (simp add: no_errors_Nil)
next
  case (Cons h hs)
  show ?case
  proof (cases "h event s")
    case (Pair r s1)
    then show ?thesis using Cons.IH [of s1]
      by (cases r) (simp_all add: no_errors_Cons)
  qed
qed

lemma range_handlers_first_error:
  "i < length hs \<Longrightarrow> no_errors (take i hs) event s \<Longrightarrow>
   (hs ! i) event (invoke_all (take i hs) event s) = (Some err, s') \<Longrightarrow>
   range_handlers hs event s = (Some err, s')"
proof (induction hs arbitrary: s i)
  case Nil
  then show ?case by simp
next
  case (Cons h hs)
  show ?case
  proof (cases i)
    case 0
    with Cons.prems show ?thesis by (simp add: invoke_all_Nil)
  next
    case (Suc j)
    with Cons.prems have h: "fst (h event s) = None"
      and rest: "no_errors (take j hs) event (snd (h event s))"
      and bad: "(hs ! j) event (invoke_all (take j hs) event (snd (h event s))) = (Some err, s')"
      and j: "j < length hs"
      by (simp_all add: no_errors_Cons invoke_all_Cons)
    obtain s1 where s1: "h event s = (None, s1)"
      using h by (cases "h event s") simp
    with Cons.IH [of j s1] j rest bad show ?thesis by simp
  qed
qed

lemma range_handlers_append:
  "range_handlers (hs @ gs) event s =
     (case range_handlers hs event s of
        (Some err, s') \<Rightarrow> (Some err, s')
      | (None, s') \<Rightarrow> range_handlers gs event s')"
  by (induction hs arbitrary: s) (auto split: prod.splits option.splits)

lemma DispatchEvent_eq_range:
  "DispatchEvent m event s =
     range_handlers (handlers_for m (TypeOf (Event event)) @ globalHandlers m) event s"
  by (simp add: DispatchEvent_def handlers_for_def range_handlers_append split: option.splits)

lemma handlers_for_New: "handlers_for NewVersionedEventDispatcher t = []"
  by (simp add: handlers_for_def NewVersionedEventDispatcher_def)

lemma globalHandlers_New: "globalHandlers NewVersionedEventDispatcher = []"
  by (simp add: NewVersionedEventDispatcher_def)

lemma handlers_for_RegisterEventHandler:
  "handlers_for (RegisterEventHandler ev h m) t =
     (if t = TypeOf ev then handlers_for m t @ [h] else handlers_for m t)"
  by (simp add: handlers_for_def RegisterEventHandler_def Let_def split: option.splits)

lemma globalHandlers_RegisterEventHandler:
  "globalHandlers (RegisterEventHandler ev h m) = globalHandlers m"
  by (simp add: RegisterEventHandler_def Let_def split: option.splits)

lemma handlers_for_RegisterGlobalHandler:
  "handlers_for (RegisterGlobalHandler h m) t = handlers_for m t"
  by (simp add: handlers_for_def RegisterGlobalHandler_def)

lemma globalHandlers_RegisterGlobalHandler:
  "globalHandlers (RegisterGlobalHandler h m) = globalHandlers m @ [h]"
  by (simp add: RegisterGlobalHandler_def)

lemma take_Suc_invoke:
  "i < length hs \<Longrightarrow>
   invoke_all (take (Suc i) hs) event s = snd ((hs ! i) event (invoke_all (take i hs) event s))"
  by (simp add: take_Suc_conv_app_nth invoke_all_append invoke_all_Cons invoke_all_Nil)

text \<open>
  Claim C1. When the payload's runtime type has registered handlers and the handler at
  position \<open>i\<close> of that list is the first to return an error, \<open>DispatchEvent\<close> returns
  that error, and the state it leaves is the one reached by invoking exactly the handlers
  at positions \<open>0..i\<close> of that list: no later type-specific handler and no global handler
  has been invoked.
\<close>

theorem DispatchEvent_type_handler_error:
  assumes "registry m (TypeOf (Event event)) = Some handlers"
    and "i < length handlers"
    and "no_errors (take i handlers) event s"
    and "fst ((handlers ! i) event (invoke_all (take i handlers) event s)) = Some err"
  shows "DispatchEvent m event s = (Some err, invoke_all (take (Suc i) handlers) event s)"
proof -
  obtain s' where bad: "(handlers ! i) event (invoke_all (take i handlers) event s) = (Some err, s')"
    using assms(4) by (cases "(handlers ! i) event (invoke_all (take i handlers) event s)") simp
  have "range_handlers handlers event s = (Some err, s')"
    using assms(2,3) bad by (rule range_handlers_first_error)
  moreover have "invoke_all (take (Suc i) handlers) event s = s'"
    using assms(2) bad by (simp add: take_Suc_invoke)
  ultimately show ?thesis
    using assms(1) by (simp add: DispatchEvent_def)
qed

lemma registry_H1_H2_H3_G:
  "registry dispatcher_H1_H2_H3_G (Some ''T'') =
     Some [log_ok ''H1'', log_fail ''H2'' ''boom'', log_ok ''H3'']"
  by (simp add: dispatcher_H1_H2_H3_G_def RegisterEventHandler_def RegisterGlobalHandler_def
      NewVersionedEventDispatcher_def)

theorem DispatchEvent_type_handler_error_witness:
  "DispatchEvent dispatcher_H1_H2_H3_G (sample_event ''T'') [] = (Some ''boom'', [''H1'', ''H2''])"
  using DispatchEvent_type_handler_error [of dispatcher_H1_H2_H3_G "sample_event ''T''"
      "[log_ok ''H1'', log_fail ''H2'' ''boom'', log_ok ''H3'']" 1 "[]" "''boom''"]
  by (simp add: registry_H1_H2_H3_G sample_event_def no_errors_def invoke_all_def
      log_ok_def log_fail_def)

text \<open>
  Claim C4. \<open>RegisterEventHandler\<close> appends to the handler list of the event's type and
  \<open>RegisterGlobalHandler\<close> appends to the global list, so both lists are in registration
  order. When no handler reports an error, \<open>DispatchEvent\<close> returns nil after invoking
  the type-specific handlers in order followed by the global handlers in order. With no
  type-specific handler for the payload's type, only the global handlers run. The first
  global handler that reports an error ends the dispatch, and its error is returned.
\<close>

theorem DispatchEvent_all_handlers_in_order:
  "handlers_for (RegisterEventHandler ev h m) t =
     (if t = TypeOf ev then handlers_for m t @ [h] else handlers_for m t)
   \<and> globalHandlers (RegisterEventHandler ev h m) = globalHandlers m
   \<and> handlers_for (RegisterGlobalHandler h m) t = handlers_for m t
   \<and> globalHandlers (RegisterGlobalHandler h m) = globalHandlers m @ [h]
   \<and> (no_errors (handlers_for m (TypeOf (Event event)) @ globalHandlers m) event s \<longrightarrow>
        DispatchEvent m event s =
          (None, invoke_all (handlers_for m (TypeOf (Event event)) @ globalHandlers m) event s))
   \<and> (handlers_for m (TypeOf (Event event)) = [] \<longrightarrow>
        DispatchEvent m event s = range_handlers (globalHandlers m) event s)
   \<and> (no_errors (handlers_for m (TypeOf (Event event)) @ take j (globalHandlers m)) event s
        \<and> j < length (globalHandlers m)
        \<and> fst ((globalHandlers m ! j) event
             (invoke_all (handlers_for m (TypeOf (Event event)) @ take j (globalHandlers m)) event s))
            = Some err \<longrightarrow>
        DispatchEvent m event s =
          (Some err,
           invoke_all (handlers_for m (TypeOf (Event event)) @ take (Suc j) (globalHandlers m)) event s))"
proof -
  let ?hs = "handlers_for m (TypeOf (Event event))"
  let ?gs = "globalHandlers m"
  have ok: "DispatchEvent m event s = (None, invoke_all (?hs @ ?gs) event s)"
    if "no_errors (?hs @ ?gs) event s"
    using that by (simp add: DispatchEvent_eq_range range_handlers_no_errors)
  have none: "DispatchEvent m event s = range_handlers ?gs event s" if "?hs = []"
    using that by (simp add: DispatchEvent_eq_range)
  have bad: "DispatchEvent m event s = (Some err, invoke_all (?hs @ take (Suc j) ?gs) event s)"
    if pre: "no_errors (?hs @ take j ?gs) event s" and j: "j < length ?gs"
      and err: "fst ((?gs ! j) event (invoke_all (?hs @ take j ?gs) event s)) = Some err"
  proof -
    let ?k = "length ?hs + j"
    have k: "?k < length (?hs @ ?gs)" using j by simp
    have tk: "take ?k (?hs @ ?gs) = ?hs @ take j ?gs" by simp
    have nk: "(?hs @ ?gs) ! ?k = ?gs ! j" by (simp add: nth_append)
    have tsk: "take (Suc ?k) (?hs @ ?gs) = ?hs @ take (Suc j) ?gs" by simp
    obtain s' where s': "((?hs @ ?gs) ! ?k) event (invoke_all (take ?k (?hs @ ?gs)) event s) = (Some err, s')"
      using err unfolding tk nk
      by (cases "(?gs ! j) event (invoke_all (?hs @ take j ?gs) event s)") simp
    have "range_handlers (?hs @ ?gs) event s = (Some err, s')"
      using k pre s' unfolding tk [symmetric] by (rule range_handlers_first_error)
    moreover have "invoke_all (take (Suc ?k) (?hs @ ?gs)) event s = s'"
      using k s' by (simp only: take_Suc_invoke snd_conv)
    ultimately show ?thesis
      unfolding tsk by (simp add: DispatchEvent_eq_range)
  qed
  show ?thesis
    using ok none bad
    by (simp add: handlers_for_RegisterEventHandler globalHandlers_RegisterEventHandler
        handlers_for_RegisterGlobalHandler globalHandlers_RegisterGlobalHandler)
qed

lemma handlers_dispatcher_ok:
  "handlers_for dispatcher_ok (Some ''T'') = [log_ok ''H1'', log_ok ''H2'']"
  "handlers_for dispatcher_ok (Some ''U'') = []"
  "globalHandlers dispatcher_ok = [log_ok ''G1'', log_ok ''G2'']"
  by (simp_all add: dispatcher_ok_def handlers_for_RegisterEventHandler globalHandlers_RegisterEventHandler
        handlers_for_RegisterGlobalHandler globalHandlers_RegisterGlobalHandler handlers_for_New
        globalHandlers_New)

lemma handlers_dispatcher_global_fail:
  "handlers_for dispatcher_global_fail (Some ''T'') = [log_ok ''H1'']"
  "globalHandlers dispatcher_global_fail =
     [log_ok ''G1'', log_fail ''G2'' ''audit failed'', log_ok ''G3'']"
  by (simp_all add: dispatcher_global_fail_def handlers_for_RegisterEventHandler globalHandlers_RegisterEventHandler
        handlers_for_RegisterGlobalHandler globalHandlers_RegisterGlobalHandler handlers_for_New
        globalHandlers_New)

theorem DispatchEvent_all_handlers_in_order_witness:
  "DispatchEvent dispatcher_ok (sample_event ''T'') [] = (None, [''H1'', ''H2'', ''G1'', ''G2''])
   \<and> DispatchEvent dispatcher_ok (sample_event ''U'') [] = (None, [''G1'', ''G2''])
   \<and> DispatchEvent dispatcher_global_fail (sample_event ''T'') [] =
       (Some ''audit failed'', [''H1'', ''G1'', ''G2''])"
  using DispatchEvent_all_handlers_in_order [where m = dispatcher_ok
      and event = "sample_event ''T''" and s = "[]"]
    DispatchEvent_all_handlers_in_order [where m = dispatcher_ok
      and event = "sample_event ''U''" and s = "[]"]
    DispatchEvent_all_handlers_in_order [where m = dispatcher_global_fail
      and event = "sample_event ''T''" and s = "[]" and j = 1 and err = "''audit failed''"]
  by (simp add: handlers_dispatcher_ok handlers_dispatcher_global_fail sample_event_def
      no_errors_def invoke_all_def log_ok_def log_fail_def All_less_Suc2)

section \<open>Properties of the system\<close>

lemma exec_append:
  "exec s (tr @ tr') = (case exec s tr of None \<Rightarrow> None | Some s' \<Rightarrow> exec s' tr')"
  by (induction tr arbitrary: s) (auto split: option.splits)

lemma exec_snoc:
  "exec s (tr @ [e]) = Some s'' \<longleftrightarrow> (\<exists>s'. exec s tr = Some s' \<and> step s' e = Some s'')"
  by (auto simp: exec_append split: option.splits)

lemma paired_initial: "paired (initial m excl st batches)"
  by (simp add: paired_def initial_def NewInMemoryEventBus_def Listen_entry_def)

lemma step_Listen_Starts:
  "step s Listen_Starts = Some s' \<longleftrightarrow>
     pc (manager s) = L_Start \<and>
     s' = s\<lparr>bus := (bus s)\<lparr>startReceiving := True\<rparr>,
            loop := Some \<lparr>loop_options = \<lparr>Close = next_chan s, Error = next_chan s + 1,
                              ReceiveEvent = next_chan s + 2, Exclusive = exclusive s\<rparr>,
                          loop_pc = B_Select\<rparr>,
            manager := (manager s)\<lparr>pc := L_Select,
                         options := \<lparr>Close = next_chan s, Error = next_chan s + 1,
                              ReceiveEvent = next_chan s + 2, Exclusive = exclusive s\<rparr>\<rparr>,
            next_chan := next_chan s + 3\<rparr>"
  by (auto simp: ReceiveEvents_def Let_def)

lemma step_Publish_Called:
  "step s Publish_Called = Some s' \<longleftrightarrow>
     (\<exists>events rest. sending (publisher s) = None \<and> calls (publisher s) = events # rest \<and>
        s' = (if startReceiving (bus s)
              then s\<lparr>publisher := (publisher s)\<lparr>calls := rest, sending := Some events\<rparr>\<rparr>
              else s\<lparr>publisher := (publisher s)\<lparr>calls := rest,
                        returned := returned (publisher s) @ [None]\<rparr>\<rparr>))"
  by (auto simp: PublishEvents_entry_def split: option.splits list.splits)

lemma step_Publish_Sent:
  "step s (Publish_Sent e) = Some s' \<longleftrightarrow>
     (\<exists>todo g. sending (publisher s) = Some (e # todo) \<and> loop s = Some g \<and> loop_pc g = B_Select \<and>
        s' = s\<lparr>publisher := (publisher s)\<lparr>sending := Some todo\<rparr>,
               loop := Some (g\<lparr>loop_pc := B_Hand \<lparr>Accepted = e, ProcessedSuccessfully = next_chan s\<rparr>\<rparr>),
               next_chan := next_chan s + 1\<rparr>)"
proof (cases "sending (publisher s)")
  case None
  then show ?thesis by simp
next
  case (Some todo)
  show ?thesis
  proof (cases "loop s")
    case None
    with Some show ?thesis by simp
  next
    case g: (Some g)
    show ?thesis
    proof (cases todo)
      case Nil
      with Some g show ?thesis by simp
    next
      case (Cons e' todo')
      with Some g show ?thesis by auto
    qed
  qed
qed

lemma step_Publish_Returned:
  "step s Publish_Returned = Some s' \<longleftrightarrow>
     sending (publisher s) = Some [] \<and>
     s' = s\<lparr>publisher := (publisher s)\<lparr>sending := None, returned := returned (publisher s) @ [None]\<rparr>\<rparr>"
proof (cases "sending (publisher s)")
  case None
  then show ?thesis by simp
next
  case (Some todo)
  then show ?thesis by (cases todo) auto
qed

lemma Listen_step_Receive_Event:
  "Listen_step m x fr (Receive_Event accept) f =
     (if pc f = L_Select then Some (dispatched m accept f) else None)"
  by (auto simp: dispatched_def split: prod.splits option.splits)

lemma pc_dispatched: "pc (dispatched m accept f) = L_SendAck (ProcessedSuccessfully accept)"
  and options_dispatched: "options (dispatched m accept f) = options f"
  by (simp_all add: dispatched_def)

lemma step_Delivered:
  "step s (Delivered e) = Some s' \<longleftrightarrow>
     (\<exists>g accept. loop s = Some g \<and> loop_pc g = B_Hand accept \<and> Accepted accept = e \<and>
        ReceiveEvent (loop_options g) = ReceiveEvent (options (manager s)) \<and>
        pc (manager s) = L_Select \<and>
        s' = s\<lparr>loop := Some (g\<lparr>loop_pc := B_WaitAck (ProcessedSuccessfully accept)\<rparr>),
               manager := dispatched (dispatcher s) accept (manager s)\<rparr>)"
proof (cases "loop s")
  case None
  then show ?thesis by simp
next
  case (Some g)
  then show ?thesis
    by (cases "loop_pc g") (auto simp: Listen_step_Receive_Event simp del: Listen_step.simps)
qed

lemma step_Acked:
  "step s Acked = Some s' \<longleftrightarrow>
     (\<exists>g c. loop s = Some g \<and> loop_pc g = B_WaitAck c \<and> pc (manager s) = L_SendAck c \<and>
        s' = s\<lparr>loop := Some (g\<lparr>loop_pc := B_Select\<rparr>),
               manager := (manager s)\<lparr>pc := L_Select,
                            logged := logged (manager s) @ [Log_DispatchSuccessful]\<rparr>\<rparr>)"
proof (cases "loop s")
  case None
  then show ?thesis by (cases "pc (manager s)") simp_all
next
  case (Some g)
  then show ?thesis by (cases "pc (manager s)") auto
qed

lemma step_Stop_Received:
  "step s Stop_Received = Some s' \<longleftrightarrow>
     pc (manager s) = L_Select \<and>
     s' = s\<lparr>manager := (manager s)\<lparr>pc := L_SendClose (next_chan s),
                          logged := logged (manager s) @ [Log_Stopping]\<rparr>,
            next_chan := next_chan s + 1\<rparr>"
  by auto

lemma step_Close_Requested:
  "step s Close_Requested = Some s' \<longleftrightarrow>
     (\<exists>g c. loop s = Some g \<and> loop_pc g = B_Select \<and> pc (manager s) = L_SendClose c \<and>
        Close (loop_options g) = Close (options (manager s)) \<and>
        s' = s\<lparr>loop := Some (g\<lparr>loop_pc := B_Reply c\<rparr>),
               manager := (manager s)\<lparr>pc := L_RecvClose c\<rparr>\<rparr>)"
proof (cases "loop s")
  case None
  then show ?thesis by (cases "pc (manager s)") simp_all
next
  case (Some g)
  then show ?thesis by (cases "pc (manager s)") auto
qed

lemma step_Close_Replied:
  "step s Close_Replied = Some s' \<longleftrightarrow>
     (\<exists>g c. loop s = Some g \<and> loop_pc g = B_Reply c \<and> pc (manager s) = L_RecvClose c \<and>
        s' = s\<lparr>loop := Some (g\<lparr>loop_pc := B_Select\<rparr>),
               manager := (manager s)\<lparr>pc := L_Returned Exit_Stop None,
                            logged := logged (manager s) @ [Log_Stopped]\<rparr>\<rparr>)"
proof (cases "loop s")
  case None
  then show ?thesis by simp
next
  case (Some g)
  then show ?thesis by (cases "loop_pc g") auto
qed

lemmas step_iff = step_Listen_Starts step_Publish_Called step_Publish_Sent step_Publish_Returned
  step_Delivered step_Acked step_Stop_Received step_Close_Requested step_Close_Replied

lemma paired_step: "paired s \<Longrightarrow> step s e = Some s' \<Longrightarrow> paired s'"
proof (cases e)
  case Listen_Starts
  assume "paired s" "step s e = Some s'"
  with Listen_Starts show ?thesis
    by (auto simp: step_iff paired_def idle_or_holding_def simp del: step.simps split: option.splits)
next
  case Publish_Called
  assume "paired s" "step s e = Some s'"
  with Publish_Called show ?thesis
    by (auto simp: step_iff paired_def simp del: step.simps split: option.splits)
next
  case (Publish_Sent x)
  assume "paired s" "step s e = Some s'"
  with Publish_Sent show ?thesis
    by (auto simp: step_iff paired_def idle_or_holding_def simp del: step.simps split: listen_pc.splits)
next
  case Publish_Returned
  assume "paired s" "step s e = Some s'"
  with Publish_Returned show ?thesis
    by (auto simp: step_iff paired_def simp del: step.simps split: option.splits)
next
  case (Delivered x)
  assume "paired s" "step s e = Some s'"
  with Delivered show ?thesis
    by (auto simp: step_iff paired_def pc_dispatched options_dispatched simp del: step.simps)
next
  case Acked
  assume "paired s" "step s e = Some s'"
  with Acked show ?thesis
    by (auto simp: step_iff paired_def idle_or_holding_def simp del: step.simps)
next
  case Stop_Received
  assume "paired s" "step s e = Some s'"
  with Stop_Received show ?thesis
    by (auto simp: step_iff paired_def simp del: step.simps split: option.splits)
next
  case Close_Requested
  assume "paired s" "step s e = Some s'"
  with Close_Requested show ?thesis
    by (auto simp: step_iff paired_def simp del: step.simps)
next
  case Close_Replied
  assume "paired s" "step s e = Some s'"
  with Close_Replied show ?thesis
    by (auto simp: step_iff paired_def idle_or_holding_def simp del: step.simps)
qed

lemma sent_events_snoc:
  "sent_events (tr @ [e]) = sent_events tr @ (case e of Publish_Sent x \<Rightarrow> [x] | _ \<Rightarrow> [])"
  by (simp add: sent_events_def)

lemma delivered_events_snoc:
  "delivered_events (tr @ [e]) = delivered_events tr @ (case e of Delivered x \<Rightarrow> [x] | _ \<Rightarrow> [])"
  by (simp add: delivered_events_def)

lemma acks_snoc: "acks (tr @ [e]) = acks tr + (if e = Acked then 1 else 0)"
  by (simp add: acks_def)

lemma called_snoc: "called (tr @ [e]) = called tr + (if e = Publish_Called then 1 else 0)"
  by (simp add: called_def)

lemma dropped_no_start: "Listen_Starts \<notin> set tr \<Longrightarrow> dropped tr = called tr"
  unfolding dropped_def
  by (rule arg_cong [where f = called]) (auto simp: takeWhile_eq_all_conv)

lemma takeWhile_until_start:
  "Listen_Starts \<notin> set tr \<Longrightarrow> takeWhile (\<lambda>x. x \<noteq> Listen_Starts) (tr @ [Listen_Starts]) = tr"
  by (induction tr) auto

lemma dropped_at_start: "Listen_Starts \<notin> set tr \<Longrightarrow> dropped (tr @ [Listen_Starts]) = called tr"
  by (simp add: dropped_def takeWhile_until_start)

lemma dropped_snoc:
  "dropped (tr @ [e]) =
     (if Listen_Starts \<in> set tr \<or> e = Listen_Starts then dropped tr
      else dropped tr + (if e = Publish_Called then 1 else 0))"
proof (cases "Listen_Starts \<in> set tr")
  case True
  then show ?thesis by (simp add: dropped_def takeWhile_append1)
next
  case False
  show ?thesis
  proof (cases "e = Listen_Starts")
    case True
    with False show ?thesis by (simp add: dropped_at_start dropped_no_start)
  next
    case e: False
    with False have "Listen_Starts \<notin> set (tr @ [e])" by simp
    then have "dropped (tr @ [e]) = called (tr @ [e])" by (rule dropped_no_start)
    with False e show ?thesis by (simp add: dropped_no_start called_snoc)
  qed
qed

lemmas trace_snoc = sent_events_snoc delivered_events_snoc acks_snoc called_snoc dropped_snoc

lemma drop_eq_ConsD: "drop n xs = y # ys \<Longrightarrow> drop (Suc n) xs = ys \<and> Suc n \<le> length xs"
  by (induction xs arbitrary: n) (auto simp: drop_Cons split: nat.splits)

lemma replicate_pred_snoc: "0 < n \<Longrightarrow> replicate (n - Suc 0) x @ [x] = replicate n x"
  by (cases n) (simp_all add: replicate_append_same)

lemma history_initial: "history_ok batches [] (initial m excl st batches)"
  by (simp add: history_ok_def initial_def NewInMemoryEventBus_def Listen_entry_def
      sent_events_def delivered_events_def acks_def called_def dropped_def
      to_send_def in_flight_def unacked_def)

lemma history_step:
  assumes "paired s" and "history_ok batches tr s" and "step s e = Some s'"
  shows "history_ok batches (tr @ [e]) s'"
proof (cases e)
  case Listen_Starts
  with assms show ?thesis
    by (auto simp: step_iff history_ok_def trace_snoc paired_def to_send_def in_flight_def
        unacked_def simp del: step.simps split: option.splits)
next
  case Publish_Called
  with assms show ?thesis
    by (auto simp: step_iff history_ok_def trace_snoc paired_def to_send_def in_flight_def
        unacked_def replicate_append_same simp del: step.simps split: option.splits
        dest!: drop_eq_ConsD)
next
  case (Publish_Sent x)
  with assms show ?thesis
    by (auto simp: step_iff history_ok_def trace_snoc paired_def to_send_def in_flight_def
        unacked_def idle_or_holding_def simp del: step.simps split: listen_pc.splits)
next
  case Publish_Returned
  with assms show ?thesis
    by (auto simp: step_iff history_ok_def trace_snoc to_send_def in_flight_def
        unacked_def replicate_pred_snoc simp del: step.simps)
next
  case (Delivered x)
  with assms show ?thesis
    by (auto simp: step_iff history_ok_def trace_snoc paired_def to_send_def in_flight_def
        unacked_def pc_dispatched simp del: step.simps)
next
  case Acked
  with assms show ?thesis
    by (auto simp: step_iff history_ok_def trace_snoc paired_def to_send_def in_flight_def
        unacked_def simp del: step.simps)
next
  case Stop_Received
  with assms show ?thesis
    by (auto simp: step_iff history_ok_def trace_snoc paired_def to_send_def in_flight_def
        unacked_def simp del: step.simps)
next
  case Close_Requested
  with assms show ?thesis
    by (auto simp: step_iff history_ok_def trace_snoc paired_def to_send_def in_flight_def
        unacked_def simp del: step.simps)
next
  case Close_Replied
  with assms show ?thesis
    by (auto simp: step_iff history_ok_def trace_snoc paired_def to_send_def in_flight_def
        unacked_def simp del: step.simps)
qed

lemma reachable_invariants:
  "exec (initial m excl st batches) tr = Some s \<Longrightarrow> paired s \<and> history_ok batches tr s"
proof (induction tr arbitrary: s rule: rev_induct)
  case Nil
  then show ?case using paired_initial [of m excl st batches] history_initial [of batches m excl st]
    by auto
next
  case (snoc e tr)
  from snoc.prems obtain s0 where s0: "exec (initial m excl st batches) tr = Some s0"
    and e: "step s0 e = Some s"
    by (auto simp: exec_snoc)
  from snoc.IH [OF s0] have "paired s0" and "history_ok batches tr s0" by simp_all
  with e show ?case by (blast intro: paired_step history_step)
qed

lemma sample_run_1:
  "observe (exec (sample_system [[sample_event ''T'']])
      [Listen_Starts, Publish_Called, Publish_Sent (sample_event ''T''), Publish_Returned]) =
     Some (L_Select,
           Some (B_Hand \<lparr>Accepted = sample_event ''T'', ProcessedSuccessfully = 4\<rparr>),
           None, [None], [], [])"
  by (simp add: observe_def sample_system_def initial_def NewInMemoryEventBus_def Listen_entry_def
      ReceiveEvents_def PublishEvents_entry_def Let_def)

lemma history_started: "history_ok batches tr s \<Longrightarrow> Listen_Starts \<in> set tr \<longleftrightarrow> startReceiving (bus s)"
  unfolding history_ok_def by blast

lemma history_calls: "history_ok batches tr s \<Longrightarrow> calls (publisher s) = drop (called tr) batches"
  unfolding history_ok_def by blast

lemma history_dropped: "history_ok batches tr s \<Longrightarrow> dropped tr \<le> called tr"
  unfolding history_ok_def by blast

lemma history_sent:
  "history_ok batches tr s \<Longrightarrow>
   sent_events tr @ to_send s @ concat (calls (publisher s)) = concat (drop (dropped tr) batches)"
  unfolding history_ok_def by blast

lemma history_flight: "history_ok batches tr s \<Longrightarrow> sent_events tr = delivered_events tr @ in_flight s"
  unfolding history_ok_def by blast

lemma history_acks: "history_ok batches tr s \<Longrightarrow> length (delivered_events tr) = acks tr + unacked s"
  unfolding history_ok_def by blast

lemma history_returned:
  "history_ok batches tr s \<Longrightarrow>
   returned (publisher s) =
     replicate (called tr - (case sending (publisher s) of Some todo \<Rightarrow> 1 | None \<Rightarrow> 0)) None"
  unfolding history_ok_def by blast

lemma in_flight_unacked: "paired s \<Longrightarrow> length (in_flight s) + unacked s \<le> 1"
  by (auto simp: paired_def in_flight_def unacked_def split: option.splits listen_pc.splits loop_pc.splits)

lemma concat_accepted:
  assumes "d \<le> c"
  shows "concat (drop d xs) = concat (take (c - d) (drop d xs)) @ concat (drop c xs)"
proof -
  have "take (c - d) (drop d xs) @ drop (c - d) (drop d xs) = drop d xs"
    by (rule append_take_drop_id)
  moreover have "drop (c - d) (drop d xs) = drop c xs"
    using assms by simp
  ultimately have "drop d xs = take (c - d) (drop d xs) @ drop c xs"
    by (simp only:)
  then have "concat (drop d xs) = concat (take (c - d) (drop d xs) @ drop c xs)"
    by (rule arg_cong)
  then show ?thesis by (simp only: concat_append)
qed

text \<open>
  Claim C2, as amended. When \<^verbatim>\<open>PublishEvents\<close> returns from its loop (line 212), every
  event of the batch, and of the batches accepted before it, has been sent to the
  receive goroutine, and all of the events sent except possibly the last one have been
  acknowledged; the result is nil.
\<close>

theorem PublishEvents_returns_after_all_but_last_ack:
  assumes "exec (initial m excl st batches) tr = Some s"
    and "step s Publish_Returned = Some s'"
  shows "sent_events tr = concat (take (called tr - dropped tr) (drop (dropped tr) batches))
       \<and> length (sent_events tr) \<le> acks tr + 1
       \<and> returned (publisher s') = returned (publisher s) @ [None]"
proof -
  from reachable_invariants [OF assms(1)] have p: "paired s" and h: "history_ok batches tr s"
    by simp_all
  from assms(2) have fin: "sending (publisher s) = Some []"
    and s': "s' = s\<lparr>publisher := (publisher s)\<lparr>sending := None,
                                returned := returned (publisher s) @ [None]\<rparr>\<rparr>"
    by (simp_all add: step_Publish_Returned del: step.simps)
  note le = history_dropped [OF h] and calls = history_calls [OF h] and all = history_sent [OF h]
    and fl = history_flight [OF h] and ac = history_acks [OF h]
  from all fin calls
  have "sent_events tr @ concat (drop (called tr) batches) = concat (drop (dropped tr) batches)"
    by (simp add: to_send_def)
  also have "\<dots> = concat (take (called tr - dropped tr) (drop (dropped tr) batches))
                  @ concat (drop (called tr) batches)"
    using le by (rule concat_accepted)
  finally have a: "sent_events tr = concat (take (called tr - dropped tr) (drop (dropped tr) batches))"
    by simp
  have "length (sent_events tr) = acks tr + unacked s + length (in_flight s)"
    using fl ac by simp
  with in_flight_unacked [OF p] have b: "length (sent_events tr) \<le> acks tr + 1"
    by simp
  from a b s' show ?thesis by simp
qed

lemma trace_1:
  "sent_events [Listen_Starts, Publish_Called, Publish_Sent e, Publish_Returned] = [e]"
  "delivered_events [Listen_Starts, Publish_Called, Publish_Sent e, Publish_Returned] = []"
  "acks [Listen_Starts, Publish_Called, Publish_Sent e, Publish_Returned] = 0"
  by (simp_all add: sent_events_def delivered_events_def acks_def)

text \<open>
  Claim C2 as stated fails for the last event of a batch: in this run \<^verbatim>\<open>PublishEvents\<close>
  has returned nil while its only event is still held by the receive goroutine, neither
  delivered nor acknowledged.
\<close>

theorem PublishEvents_returns_before_last_ack:
  "observe (exec (sample_system [[sample_event ''T'']])
      [Listen_Starts, Publish_Called, Publish_Sent (sample_event ''T''), Publish_Returned]) =
     Some (L_Select,
           Some (B_Hand \<lparr>Accepted = sample_event ''T'', ProcessedSuccessfully = 4\<rparr>),
           None, [None], [], [])
   \<and> sent_events [Listen_Starts, Publish_Called, Publish_Sent (sample_event ''T''), Publish_Returned]
       = [sample_event ''T'']
   \<and> delivered_events [Listen_Starts, Publish_Called, Publish_Sent (sample_event ''T''), Publish_Returned]
       = []
   \<and> acks [Listen_Starts, Publish_Called, Publish_Sent (sample_event ''T''), Publish_Returned] = 0"
  by (intro conjI) (rule sample_run_1 trace_1)+

lemma observe_SomeD:
  "observe so = Some (p, l, sd, rt, hs, lg) \<Longrightarrow>
   \<exists>s. so = Some s \<and> pc (manager s) = p \<and> map_option loop_pc (loop s) = l \<and>
       sending (publisher s) = sd \<and> returned (publisher s) = rt \<and>
       handler_state (manager s) = hs \<and> logged (manager s) = lg"
  by (cases so) (auto simp: observe_def)

lemmas sample_defs = observe_def sample_system_def initial_def NewInMemoryEventBus_def
  Listen_entry_def ReceiveEvents_def PublishEvents_entry_def Let_def

lemma registry_H1_H2_H3_G_all:
  "registry dispatcher_H1_H2_H3_G =
     [Some ''T'' \<mapsto> [log_ok ''H1'', log_fail ''H2'' ''boom'', log_ok ''H3'']]"
  "globalHandlers dispatcher_H1_H2_H3_G = [log_ok ''G'']"
  by (simp_all add: dispatcher_H1_H2_H3_G_def RegisterEventHandler_def RegisterGlobalHandler_def
      NewVersionedEventDispatcher_def)

lemma DispatchEvent_sample_T:
  "DispatchEvent dispatcher_H1_H2_H3_G (sample_event ''T'') st = (Some ''boom'', st @ [''H1'', ''H2''])"
  by (simp add: DispatchEvent_def registry_H1_H2_H3_G_all sample_event_def log_ok_def log_fail_def)

lemma DispatchEvent_sample_U:
  "DispatchEvent dispatcher_H1_H2_H3_G (sample_event ''U'') st = (None, st @ [''G''])"
  by (simp add: DispatchEvent_def registry_H1_H2_H3_G_all sample_event_def log_ok_def log_fail_def)

lemma sample_run_2:
  "observe (exec (sample_system [[sample_event ''T'', sample_event ''U'']])
      [Listen_Starts, Publish_Called, Publish_Sent (sample_event ''T''),
       Delivered (sample_event ''T''), Acked, Publish_Sent (sample_event ''U''),
       Publish_Returned]) =
     Some (L_Select,
           Some (B_Hand \<lparr>Accepted = sample_event ''U'', ProcessedSuccessfully = 5\<rparr>),
           None, [None], [''H1'', ''H2''],
           [Log_DispatchEvent (sample_event ''T''), Log_ErrorDispatching ''boom'',
            Log_DispatchSuccessful])"
  by (simp add: sample_defs DispatchEvent_sample_T DispatchEvent_sample_U)

lemma trace_2:
  "sent_events [Listen_Starts, Publish_Called, Publish_Sent a, Delivered a, Acked, Publish_Sent b] = [a, b]"
  "delivered_events [Listen_Starts, Publish_Called, Publish_Sent a, Delivered a, Acked, Publish_Sent b] = [a]"
  "acks [Listen_Starts, Publish_Called, Publish_Sent a, Delivered a, Acked, Publish_Sent b] = 1"
  "called [Listen_Starts, Publish_Called, Publish_Sent a, Delivered a, Acked, Publish_Sent b] = 1"
  "dropped [Listen_Starts, Publish_Called, Publish_Sent a, Delivered a, Acked, Publish_Sent b] = 0"
  by (simp_all add: sent_events_def delivered_events_def acks_def called_def dropped_def)

text \<open>
  A run in which \<^verbatim>\<open>PublishEvents\<close> returns from a batch of two events: both were sent,
  one acknowledgement has been given.
\<close>

theorem PublishEvents_returns_after_all_but_last_ack_witness:
  "observe (exec (sample_system [[sample_event ''T'', sample_event ''U'']])
      ([Listen_Starts, Publish_Called, Publish_Sent (sample_event ''T''),
        Delivered (sample_event ''T''), Acked, Publish_Sent (sample_event ''U'')]
       @ [Publish_Returned])) =
     Some (L_Select,
           Some (B_Hand \<lparr>Accepted = sample_event ''U'', ProcessedSuccessfully = 5\<rparr>),
           None, [None], [''H1'', ''H2''],
           [Log_DispatchEvent (sample_event ''T''), Log_ErrorDispatching ''boom'',
            Log_DispatchSuccessful])
   \<and> sent_events [Listen_Starts, Publish_Called, Publish_Sent (sample_event ''T''),
        Delivered (sample_event ''T''), Acked, Publish_Sent (sample_event ''U'')]
       = [sample_event ''T'', sample_event ''U'']
   \<and> acks [Listen_Starts, Publish_Called, Publish_Sent (sample_event ''T''),
        Delivered (sample_event ''T''), Acked, Publish_Sent (sample_event ''U'')] = 1"
proof -
  let ?tr = "[Listen_Starts, Publish_Called, Publish_Sent (sample_event ''T''),
        Delivered (sample_event ''T''), Acked, Publish_Sent (sample_event ''U'')]"
  let ?I = "sample_system [[sample_event ''T'', sample_event ''U'']]"
  have run: "observe (exec ?I (?tr @ [Publish_Returned])) =
     Some (L_Select,
           Some (B_Hand \<lparr>Accepted = sample_event ''U'', ProcessedSuccessfully = 5\<rparr>),
           None, [None], [''H1'', ''H2''],
           [Log_DispatchEvent (sample_event ''T''), Log_ErrorDispatching ''boom'',
            Log_DispatchSuccessful])"
    using sample_run_2 by simp
  then obtain s' where "exec ?I (?tr @ [Publish_Returned]) = Some s'"
    by (blast dest: observe_SomeD)
  then obtain s where s: "exec ?I ?tr = Some s" and st: "step s Publish_Returned = Some s'"
    unfolding exec_snoc by blast
  from PublishEvents_returns_after_all_but_last_ack [OF s [unfolded sample_system_def] st]
  have "sent_events ?tr = concat (take (called ?tr - dropped ?tr)
          (drop (dropped ?tr) [[sample_event ''T'', sample_event ''U'']]))"
    and "length (sent_events ?tr) \<le> acks ?tr + 1"
    by blast+
  then have "sent_events ?tr = [sample_event ''T'', sample_event ''U''] \<and> acks ?tr = 1"
    by (simp add: trace_2)
  with run show ?thesis by blast
qed

lemma exec_append_Some:
  "exec s (tr @ tr') = Some s'' \<longleftrightarrow> (\<exists>s'. exec s tr = Some s' \<and> exec s' tr' = Some s'')"
  by (auto simp: exec_append split: option.splits)

lemma exec_Cons_Some:
  "exec s (e # es) = Some s'' \<longleftrightarrow> (\<exists>s'. step s e = Some s' \<and> exec s' es = Some s'')"
  by (cases "step s e") simp_all

lemma unacked_at_select: "pc (manager s) = L_Select \<Longrightarrow> unacked s = 0"
  by (simp add: unacked_def)

lemma idle_loop:
  "paired s \<Longrightarrow> loop s = Some g \<Longrightarrow> loop_pc g = B_Select \<Longrightarrow> in_flight s = [] \<and> unacked s = 0"
  by (auto simp: paired_def in_flight_def unacked_def split: listen_pc.splits)

text \<open>
  Claim C8. In every reachable state of the system, the events sent so far are a prefix of
  the published sequence (the batches in call order, events in batch order) and the events
  delivered to \<^verbatim>\<open>Listen\<close> are a prefix of the events sent, so an event published earlier
  is delivered earlier. The send of an event on \<^verbatim>\<open>publishedEventsChannel\<close> completes
  only when every event sent before has been delivered and acknowledged, and the loop
  hands an event over only when every event delivered before has been acknowledged: at
  most one delivered event is unacknowledged.
\<close>

theorem ordered_delivery_one_in_flight:
  assumes "exec (initial m excl st batches) tr = Some s"
  shows "sent_events tr = take (length (sent_events tr)) (concat (drop (dropped tr) batches))
       \<and> delivered_events tr = take (length (delivered_events tr)) (sent_events tr)
       \<and> (\<forall>e s'. step s (Publish_Sent e) = Some s' \<longrightarrow>
            delivered_events tr = sent_events tr \<and> acks tr = length (sent_events tr))
       \<and> (\<forall>e s'. step s (Delivered e) = Some s' \<longrightarrow> acks tr = length (delivered_events tr))
       \<and> length (delivered_events tr) \<le> acks tr + 1"
proof -
  from reachable_invariants [OF assms] have p: "paired s" and h: "history_ok batches tr s"
    by simp_all
  note all = history_sent [OF h] and fl = history_flight [OF h] and ac = history_acks [OF h]
  have a: "sent_events tr = take (length (sent_events tr)) (concat (drop (dropped tr) batches))"
    by (simp add: all [symmetric])
  have b: "delivered_events tr = take (length (delivered_events tr)) (sent_events tr)"
    by (simp add: fl)
  have c: "delivered_events tr = sent_events tr \<and> acks tr = length (sent_events tr)"
    if "step s (Publish_Sent e) = Some s'" for e s'
  proof -
    from that obtain g where "loop s = Some g" "loop_pc g = B_Select"
      by (auto simp: step_Publish_Sent simp del: step.simps)
    with idle_loop [OF p] have "in_flight s = []" "unacked s = 0" by simp_all
    with fl ac show ?thesis by simp
  qed
  have d: "acks tr = length (delivered_events tr)" if "step s (Delivered e) = Some s'" for e s'
  proof -
    from that have "pc (manager s) = L_Select"
      by (auto simp: step_Delivered simp del: step.simps)
    with ac show ?thesis by (simp add: unacked_at_select)
  qed
  have e: "length (delivered_events tr) \<le> acks tr + 1"
    using ac in_flight_unacked [OF p] by simp
  from a b c d e show ?thesis by blast
qed

lemma sample_run_3:
  "observe (exec (sample_system [[sample_event ''T''], [sample_event ''U'']])
      [Listen_Starts, Publish_Called, Publish_Sent (sample_event ''T''), Publish_Returned,
       Publish_Called, Delivered (sample_event ''T''), Acked, Publish_Sent (sample_event ''U''),
       Delivered (sample_event ''U'')]) =
     Some (L_SendAck 5, Some (B_WaitAck 5), Some [], [None], [''H1'', ''H2'', ''G''],
           [Log_DispatchEvent (sample_event ''T''), Log_ErrorDispatching ''boom'',
            Log_DispatchSuccessful, Log_DispatchEvent (sample_event ''U'')])"
  by (simp add: sample_defs DispatchEvent_sample_T DispatchEvent_sample_U)

lemma trace_3:
  "sent_events [Listen_Starts, Publish_Called, Publish_Sent a, Publish_Returned,
       Publish_Called, Delivered a, Acked] = [a]"
  "delivered_events [Listen_Starts, Publish_Called, Publish_Sent a, Publish_Returned,
       Publish_Called, Delivered a, Acked] = [a]"
  "acks [Listen_Starts, Publish_Called, Publish_Sent a, Publish_Returned,
       Publish_Called, Delivered a, Acked] = 1"
  "dropped [Listen_Starts, Publish_Called, Publish_Sent a, Publish_Returned,
       Publish_Called, Delivered a, Acked] = 0"
  by (simp_all add: sent_events_def delivered_events_def acks_def called_def dropped_def)

theorem ordered_delivery_one_in_flight_witness:
  "observe (exec (sample_system [[sample_event ''T''], [sample_event ''U'']])
      ([Listen_Starts, Publish_Called, Publish_Sent (sample_event ''T''), Publish_Returned,
        Publish_Called, Delivered (sample_event ''T''), Acked]
       @ [Publish_Sent (sample_event ''U''), Delivered (sample_event ''U'')])) =
     Some (L_SendAck 5, Some (B_WaitAck 5), Some [], [None], [''H1'', ''H2'', ''G''],
           [Log_DispatchEvent (sample_event ''T''), Log_ErrorDispatching ''boom'',
            Log_DispatchSuccessful, Log_DispatchEvent (sample_event ''U'')])
   \<and> delivered_events [Listen_Starts, Publish_Called, Publish_Sent (sample_event ''T''),
        Publish_Returned, Publish_Called, Delivered (sample_event ''T''), Acked]
       = [sample_event ''T'']
   \<and> acks [Listen_Starts, Publish_Called, Publish_Sent (sample_event ''T''),
        Publish_Returned, Publish_Called, Delivered (sample_event ''T''), Acked] = 1"
proof -
  let ?tr = "[Listen_Starts, Publish_Called, Publish_Sent (sample_event ''T''), Publish_Returned,
        Publish_Called, Delivered (sample_event ''T''), Acked]"
  let ?I = "sample_system [[sample_event ''T''], [sample_event ''U'']]"
  have run: "observe (exec ?I (?tr @ [Publish_Sent (sample_event ''U''), Delivered (sample_event ''U'')])) =
     Some (L_SendAck 5, Some (B_WaitAck 5), Some [], [None], [''H1'', ''H2'', ''G''],
           [Log_DispatchEvent (sample_event ''T''), Log_ErrorDispatching ''boom'',
            Log_DispatchSuccessful, Log_DispatchEvent (sample_event ''U'')])"
    using sample_run_3 by simp
  then obtain s2 where
    "exec ?I (?tr @ [Publish_Sent (sample_event ''U''), Delivered (sample_event ''U'')]) = Some s2"
    by (blast dest: observe_SomeD)
  then obtain s s1 where s: "exec ?I ?tr = Some s"
    and st: "step s (Publish_Sent (sample_event ''U'')) = Some s1"
    unfolding exec_append_Some exec_Cons_Some by blast
  from ordered_delivery_one_in_flight [OF s [unfolded sample_system_def]] st
  have "delivered_events ?tr = sent_events ?tr \<and> acks ?tr = length (sent_events ?tr)"
    by blast
  then have "delivered_events ?tr = [sample_event ''T''] \<and> acks ?tr = 1"
    by (simp add: trace_3)
  with run show ?thesis by blast
qed

text \<open>
  Claim C9. On a new bus, and on any bus whose \<^verbatim>\<open>startReceiving\<close> flag is unset,
  \<^verbatim>\<open>PublishEvents\<close> returns nil at line 205 without sending. In the system the flag is
  set exactly when \<^verbatim>\<open>ReceiveEvents\<close> has been called; a call made before that changes
  nothing but the publisher (the batch is gone, nil is returned), and the events
  delivered later are a prefix of the batches whose calls came after (\<open>dropped tr\<close> counts
  the calls made before \<^verbatim>\<open>ReceiveEvents\<close>).
\<close>

theorem PublishEvents_without_receiver_drops:
  "PublishEvents_entry (NewInMemoryEventBus c) events = Inl None
   \<and> (\<not> startReceiving b \<longrightarrow> PublishEvents_entry b events = Inl None)
   \<and> (exec (initial m excl st batches) tr = Some s \<longrightarrow>
        (startReceiving (bus s) \<longleftrightarrow> Listen_Starts \<in> set tr)
        \<and> (\<forall>s'. \<not> startReceiving (bus s) \<and> step s Publish_Called = Some s' \<longrightarrow>
              s' = s\<lparr>publisher := (publisher s)\<lparr>calls := tl (calls (publisher s)),
                         returned := returned (publisher s) @ [None]\<rparr>\<rparr>)
        \<and> delivered_events tr
            = take (length (delivered_events tr)) (concat (drop (dropped tr) batches)))"
proof -
  have a: "PublishEvents_entry (NewInMemoryEventBus c) events = Inl None"
    by (simp add: PublishEvents_entry_def NewInMemoryEventBus_def)
  have b: "\<not> startReceiving b \<longrightarrow> PublishEvents_entry b events = Inl None"
    by (simp add: PublishEvents_entry_def)
  have c: "(startReceiving (bus s) \<longleftrightarrow> Listen_Starts \<in> set tr)
        \<and> (\<forall>s'. \<not> startReceiving (bus s) \<and> step s Publish_Called = Some s' \<longrightarrow>
              s' = s\<lparr>publisher := (publisher s)\<lparr>calls := tl (calls (publisher s)),
                         returned := returned (publisher s) @ [None]\<rparr>\<rparr>)
        \<and> delivered_events tr
            = take (length (delivered_events tr)) (concat (drop (dropped tr) batches))"
    if run: "exec (initial m excl st batches) tr = Some s"
  proof -
    from reachable_invariants [OF run] have h: "history_ok batches tr s" by simp
    have "concat (drop (dropped tr) batches)
            = delivered_events tr @ (in_flight s @ to_send s @ concat (calls (publisher s)))"
      using history_sent [OF h] history_flight [OF h] by simp
    then have "delivered_events tr
            = take (length (delivered_events tr)) (concat (drop (dropped tr) batches))"
      by simp
    moreover have "s' = s\<lparr>publisher := (publisher s)\<lparr>calls := tl (calls (publisher s)),
                         returned := returned (publisher s) @ [None]\<rparr>\<rparr>"
      if "\<not> startReceiving (bus s)" "step s Publish_Called = Some s'" for s'
      using that by (auto simp: step_Publish_Called simp del: step.simps)
    ultimately show ?thesis using history_started [OF h] by blast
  qed
  from a b c show ?thesis by blast
qed

lemma sample_run_4:
  "observe (exec (sample_system [[sample_event ''T''], [sample_event ''U'']])
      [Publish_Called, Listen_Starts, Publish_Called, Publish_Sent (sample_event ''U''),
       Delivered (sample_event ''U''), Acked, Publish_Returned]) =
     Some (L_Select, Some B_Select, None, [None, None], [''G''],
           [Log_DispatchEvent (sample_event ''U''), Log_DispatchSuccessful])"
  by (simp add: sample_defs DispatchEvent_sample_T DispatchEvent_sample_U)

lemma trace_4:
  "delivered_events [Publish_Called, Listen_Starts, Publish_Called, Publish_Sent b,
       Delivered b, Acked, Publish_Returned] = [b]"
  "dropped [Publish_Called, Listen_Starts, Publish_Called, Publish_Sent b,
       Delivered b, Acked, Publish_Returned] = 1"
  by (simp_all add: delivered_events_def called_def dropped_def)

theorem PublishEvents_without_receiver_drops_witness:
  "observe (exec (sample_system [[sample_event ''T''], [sample_event ''U'']])
      [Publish_Called, Listen_Starts, Publish_Called, Publish_Sent (sample_event ''U''),
       Delivered (sample_event ''U''), Acked, Publish_Returned]) =
     Some (L_Select, Some B_Select, None, [None, None], [''G''],
           [Log_DispatchEvent (sample_event ''U''), Log_DispatchSuccessful])
   \<and> delivered_events [Publish_Called, Listen_Starts, Publish_Called,
        Publish_Sent (sample_event ''U''), Delivered (sample_event ''U''), Acked, Publish_Returned]
       = take 1 (concat (drop 1 [[sample_event ''T''], [sample_event ''U'']]))
   \<and> PublishEvents_entry (NewInMemoryEventBus 0) [sample_event ''T''] = Inl None"
proof -
  let ?tr = "[Publish_Called, Listen_Starts, Publish_Called, Publish_Sent (sample_event ''U''),
       Delivered (sample_event ''U''), Acked, Publish_Returned]"
  let ?I = "sample_system [[sample_event ''T''], [sample_event ''U'']]"
  from sample_run_4 obtain s where s: "exec ?I ?tr = Some s"
    by (blast dest: observe_SomeD)
  from PublishEvents_without_receiver_drops [where c = 0 and events = "[sample_event ''T'']"
      and b = "NewInMemoryEventBus 0" and tr = ?tr and s = s and m = dispatcher_H1_H2_H3_G
      and excl = False and st = "[]" and batches = "[[sample_event ''T''], [sample_event ''U'']]"]
    s [unfolded sample_system_def]
  have "delivered_events ?tr = take (length (delivered_events ?tr))
          (concat (drop (dropped ?tr) [[sample_event ''T''], [sample_event ''U'']]))"
    and "PublishEvents_entry (NewInMemoryEventBus 0) [sample_event ''T''] = Inl None"
    by blast+
  then show ?thesis using sample_run_4 by (simp add: trace_4)
qed

lemma Listen_step_Returned: "pc f = L_Returned x r \<Longrightarrow> Listen_step m excl fresh c f = None"
  by (cases c) (simp_all split: option.splits)

lemma Listen_step_keeps_started:
  "Listen_step m excl fresh c f = Some f' \<Longrightarrow> pc f \<noteq> L_Start \<Longrightarrow>
   pc f' \<noteq> L_Start \<and> (\<forall>r. pc f' \<noteq> L_Returned Exit_Receiver r)"
  by (cases c) (auto split: if_splits prod.splits option.splits)

lemma Listen_run_keeps_started:
  "Listen_run m excl cs f = Some f' \<Longrightarrow> pc f \<noteq> L_Start \<Longrightarrow>
   \<forall>r. pc f \<noteq> L_Returned Exit_Receiver r \<Longrightarrow>
   pc f' \<noteq> L_Start \<and> (\<forall>r. pc f' \<noteq> L_Returned Exit_Receiver r)"
proof (induction cs arbitrary: f)
  case Nil
  then show ?case by simp
next
  case (Cons a cs)
  obtain fresh c where a: "a = (fresh, c)" by (cases a)
  with Cons.prems obtain f1 where f1: "Listen_step m excl fresh c f = Some f1"
    and rest: "Listen_run m excl cs f1 = Some f'"
    by (auto split: option.splits)
  from Listen_step_keeps_started [OF f1 Cons.prems(2)] Cons.IH [OF rest]
  show ?case by blast
qed

text \<open>
  Claim C10. \<^verbatim>\<open>ReceiveEvents\<close> returns nil whatever the options. Hence \<^verbatim>\<open>Listen\<close> on
  the in-memory bus never leaves by the return of line 159: in the system, and against
  any environment that answers the receiver call like the in-memory bus, a returned
  \<^verbatim>\<open>Listen\<close> has left by the stop branch or by the error channel branch.
\<close>

theorem ReceiveEvents_nil_Listen_exits:
  "fst (ReceiveEvents opts b) = None
   \<and> (exec (initial m excl st batches) tr = Some s \<and> pc (manager s) = L_Returned x r \<longrightarrow>
        x \<noteq> Exit_Receiver \<and> (x = Exit_Stop \<or> x = Exit_Error))
   \<and> (Listen_run m excl ((fresh, Call_Receiver opts' (fst (ReceiveEvents opts' b))) # cs) (Listen_entry st)
          = Some f \<and> pc f = L_Returned x r \<longrightarrow>
        x \<noteq> Exit_Receiver \<and> (x = Exit_Stop \<or> x = Exit_Error))"
proof -
  have a: "fst (ReceiveEvents opts b) = None"
    by (simp add: ReceiveEvents_def)
  have b: "x \<noteq> Exit_Receiver \<and> (x = Exit_Stop \<or> x = Exit_Error)"
    if "exec (initial m excl st batches) tr = Some s" "pc (manager s) = L_Returned x r"
  proof -
    from reachable_invariants [OF that(1)] have "paired s" by simp
    with that(2) have "x = Exit_Stop"
      by (auto simp: paired_def split: option.splits)
    then show ?thesis by simp
  qed
  have c: "x \<noteq> Exit_Receiver \<and> (x = Exit_Stop \<or> x = Exit_Error)"
    if run: "Listen_run m excl ((fresh, Call_Receiver opts' (fst (ReceiveEvents opts' b))) # cs)
               (Listen_entry st) = Some f"
      and ret: "pc f = L_Returned x r"
  proof -
    from run obtain f1 where
      f1: "Listen_step m excl fresh (Call_Receiver opts' None) (Listen_entry st) = Some f1"
      and rest: "Listen_run m excl cs f1 = Some f"
      by (auto simp: ReceiveEvents_def split: option.splits simp del: Listen_step.simps)
    from f1 have "pc f1 = L_Select"
      by (auto split: if_splits)
    with Listen_run_keeps_started [OF rest] ret have "x \<noteq> Exit_Receiver"
      by auto
    then show ?thesis by (cases x) simp_all
  qed
  from a b c show ?thesis by blast
qed

lemma sample_run_5:
  "observe (exec (sample_system [])
      [Listen_Starts, Stop_Received, Close_Requested, Close_Replied]) =
     Some (L_Returned Exit_Stop None, Some B_Select, None, [], [], [Log_Stopping, Log_Stopped])"
  by (simp add: sample_defs)

lemma sample_Listen_run:
  "map_option pc (Listen_run dispatcher_H1_H2_H3_G False
      [(1, Call_Receiver \<lparr>Close = 1, Error = 2, ReceiveEvent = 3, Exclusive = False\<rparr>
             (fst (ReceiveEvents \<lparr>Close = 1, Error = 2, ReceiveEvent = 3, Exclusive = False\<rparr>
                (NewInMemoryEventBus 0)))),
       (4, Receive_Error (Some ''connection lost''))]
      (Listen_entry [])) = Some (L_Returned Exit_Error (Some ''connection lost''))"
  by (simp add: ReceiveEvents_def Listen_entry_def)

theorem ReceiveEvents_nil_Listen_exits_witness:
  "observe (exec (sample_system [])
      [Listen_Starts, Stop_Received, Close_Requested, Close_Replied]) =
     Some (L_Returned Exit_Stop None, Some B_Select, None, [], [], [Log_Stopping, Log_Stopped])
   \<and> map_option pc (Listen_run dispatcher_H1_H2_H3_G False
      [(1, Call_Receiver \<lparr>Close = 1, Error = 2, ReceiveEvent = 3, Exclusive = False\<rparr>
             (fst (ReceiveEvents \<lparr>Close = 1, Error = 2, ReceiveEvent = 3, Exclusive = False\<rparr>
                (NewInMemoryEventBus 0)))),
       (4, Receive_Error (Some ''connection lost''))]
      (Listen_entry [])) = Some (L_Returned Exit_Error (Some ''connection lost''))
   \<and> Exit_Stop \<noteq> Exit_Receiver \<and> Exit_Error \<noteq> Exit_Receiver"
proof -
  from sample_run_5 obtain s where s: "exec (sample_system []) 
      [Listen_Starts, Stop_Received, Close_Requested, Close_Replied] = Some s"
    and pcs: "pc (manager s) = L_Returned Exit_Stop None"
    by (blast dest: observe_SomeD)
  from sample_Listen_run obtain f where f: "Listen_run dispatcher_H1_H2_H3_G False
      [(1, Call_Receiver \<lparr>Close = 1, Error = 2, ReceiveEvent = 3, Exclusive = False\<rparr>
             (fst (ReceiveEvents \<lparr>Close = 1, Error = 2, ReceiveEvent = 3, Exclusive = False\<rparr>
                (NewInMemoryEventBus 0)))),
       (4, Receive_Error (Some ''connection lost''))]
      (Listen_entry []) = Some f"
    and pcf: "pc f = L_Returned Exit_Error (Some ''connection lost'')"
    by blast
  from ReceiveEvents_nil_Listen_exits [where m = dispatcher_H1_H2_H3_G and excl = False
      and st = "[]" and batches = "[]" and s = s and x = Exit_Stop and r = None
      and tr = "[Listen_Starts, Stop_Received, Close_Requested, Close_Replied]"]
    s [unfolded sample_system_def] pcs
  have 1: "Exit_Stop \<noteq> Exit_Receiver" by blast
  from ReceiveEvents_nil_Listen_exits [where m = dispatcher_H1_H2_H3_G and excl = False
      and st = "[]" and f = f and x = Exit_Error and r = "Some ''connection lost''"
      and fresh = 1 and opts' = "\<lparr>Close = 1, Error = 2, ReceiveEvent = 3, Exclusive = False\<rparr>"
      and b = "NewInMemoryEventBus 0" and cs = "[(4, Receive_Error (Some ''connection lost''))]"]
    f pcf
  have 2: "Exit_Error \<noteq> Exit_Receiver" by blast
  from sample_run_5 sample_Listen_run 1 2 show ?thesis by blast
qed

lemma Listen_step_at_SendAck:
  "pc f = L_SendAck a \<Longrightarrow> Listen_step m excl fresh c f = Some f' \<Longrightarrow> c = Send_Ack a True"
  by (cases c) (auto split: if_splits)

text \<open>
  Claim C5. When \<^verbatim>\<open>Listen\<close> receives an event and the dispatcher returns an error, it
  logs the event and the error, keeps running, and stands at the send of \<^verbatim>\<open>true\<close> on the
  event's \<^verbatim>\<open>ProcessedSuccessfully\<close> channel; the handler state is that of the one dispatch.
  The only exchange it offers there is this send, after which it is back at the
  \<^verbatim>\<open>select\<close>. With the in-memory bus the send always goes through: whenever \<^verbatim>\<open>Listen\<close>
  stands at the send, the bus goroutine is waiting on that channel.
\<close>

theorem Listen_dispatch_error_logged_and_acked:
  "(Listen_step m excl fresh (Receive_Event accept) f = Some f'
      \<and> fst (DispatchEvent m (Accepted accept) (handler_state f)) = Some err \<longrightarrow>
      pc f' = L_SendAck (ProcessedSuccessfully accept)
      \<and> logged f' = logged f @ [Log_DispatchEvent (Accepted accept), Log_ErrorDispatching err]
      \<and> handler_state f' = snd (DispatchEvent m (Accepted accept) (handler_state f))
      \<and> (\<forall>fresh' c f''. Listen_step m excl fresh' c f' = Some f'' \<longrightarrow>
            c = Send_Ack (ProcessedSuccessfully accept) True)
      \<and> Listen_step m excl fresh'' (Send_Ack (ProcessedSuccessfully accept) True) f'
          = Some (f'\<lparr>pc := L_Select, logged := logged f' @ [Log_DispatchSuccessful]\<rparr>))
   \<and> (exec (initial m excl st batches) tr = Some s \<and> pc (manager s) = L_SendAck a \<longrightarrow>
        (\<exists>g. loop s = Some g \<and>
           step s Acked = Some (s\<lparr>loop := Some (g\<lparr>loop_pc := B_Select\<rparr>),
             manager := (manager s)\<lparr>pc := L_Select,
                          logged := logged (manager s) @ [Log_DispatchSuccessful]\<rparr>\<rparr>)))"
proof -
  have a: "pc f' = L_SendAck (ProcessedSuccessfully accept)
      \<and> logged f' = logged f @ [Log_DispatchEvent (Accepted accept), Log_ErrorDispatching err]
      \<and> handler_state f' = snd (DispatchEvent m (Accepted accept) (handler_state f))
      \<and> (\<forall>fresh' c f''. Listen_step m excl fresh' c f' = Some f'' \<longrightarrow>
            c = Send_Ack (ProcessedSuccessfully accept) True)
      \<and> Listen_step m excl fresh'' (Send_Ack (ProcessedSuccessfully accept) True) f'
          = Some (f'\<lparr>pc := L_Select, logged := logged f' @ [Log_DispatchSuccessful]\<rparr>)"
    if rcv: "Listen_step m excl fresh (Receive_Event accept) f = Some f'"
      and err: "fst (DispatchEvent m (Accepted accept) (handler_state f)) = Some err"
  proof -
    from rcv have f': "f' = dispatched m accept f"
      by (simp add: Listen_step_Receive_Event del: Listen_step.simps split: if_splits)
    then have pc': "pc f' = L_SendAck (ProcessedSuccessfully accept)"
      by (simp add: pc_dispatched)
    from f' err have "logged f' = logged f @ [Log_DispatchEvent (Accepted accept), Log_ErrorDispatching err]"
      and "handler_state f' = snd (DispatchEvent m (Accepted accept) (handler_state f))"
      by (simp_all add: dispatched_def)
    moreover from pc' have "\<forall>fresh' c f''. Listen_step m excl fresh' c f' = Some f'' \<longrightarrow>
            c = Send_Ack (ProcessedSuccessfully accept) True"
      by (blast dest: Listen_step_at_SendAck)
    moreover from pc' have "Listen_step m excl fresh'' (Send_Ack (ProcessedSuccessfully accept) True) f'
          = Some (f'\<lparr>pc := L_Select, logged := logged f' @ [Log_DispatchSuccessful]\<rparr>)"
      by simp
    ultimately show ?thesis using pc' by blast
  qed
  have b: "\<exists>g. loop s = Some g \<and>
           step s Acked = Some (s\<lparr>loop := Some (g\<lparr>loop_pc := B_Select\<rparr>),
             manager := (manager s)\<lparr>pc := L_Select,
                          logged := logged (manager s) @ [Log_DispatchSuccessful]\<rparr>\<rparr>)"
    if run: "exec (initial m excl st batches) tr = Some s" and pcs: "pc (manager s) = L_SendAck a"
  proof -
    from reachable_invariants [OF run] have "paired s" by simp
    with pcs obtain g where "loop s = Some g" "loop_pc g = B_WaitAck a"
      by (auto simp: paired_def split: option.splits)
    with pcs show ?thesis
      by (simp add: step_Acked del: step.simps)
  qed
  from a b show ?thesis by blast
qed

lemma sample_Listen_step:
  "Listen_step dispatcher_H1_H2_H3_G False 4
     (Receive_Event \<lparr>Accepted = sample_event ''T'', ProcessedSuccessfully = 9\<rparr>)
     ((Listen_entry [])\<lparr>pc := L_Select\<rparr>)
   = Some ((Listen_entry [])\<lparr>pc := L_SendAck 9, handler_state := [''H1'', ''H2''],
        logged := [Log_DispatchEvent (sample_event ''T''), Log_ErrorDispatching ''boom'']\<rparr>)"
  by (simp add: DispatchEvent_sample_T Listen_entry_def)

theorem Listen_dispatch_error_logged_and_acked_witness:
  "Listen_step dispatcher_H1_H2_H3_G False 4
     (Receive_Event \<lparr>Accepted = sample_event ''T'', ProcessedSuccessfully = 9\<rparr>)
     ((Listen_entry [])\<lparr>pc := L_Select\<rparr>)
   = Some ((Listen_entry [])\<lparr>pc := L_SendAck 9, handler_state := [''H1'', ''H2''],
        logged := [Log_DispatchEvent (sample_event ''T''), Log_ErrorDispatching ''boom'']\<rparr>)
   \<and> Listen_step dispatcher_H1_H2_H3_G False 4 (Send_Ack 9 True)
        ((Listen_entry [])\<lparr>pc := L_SendAck 9, handler_state := [''H1'', ''H2''],
          logged := [Log_DispatchEvent (sample_event ''T''), Log_ErrorDispatching ''boom'']\<rparr>)
      = Some ((Listen_entry [])\<lparr>pc := L_Select, handler_state := [''H1'', ''H2''],
          logged := [Log_DispatchEvent (sample_event ''T''), Log_ErrorDispatching ''boom'',
                     Log_DispatchSuccessful]\<rparr>)
   \<and> observe (exec (sample_system [[sample_event ''T'', sample_event ''U'']])
       [Listen_Starts, Publish_Called, Publish_Sent (sample_event ''T''),
        Delivered (sample_event ''T''), Acked]) =
     Some (L_Select, Some B_Select, Some [sample_event ''U''], [], [''H1'', ''H2''],
           [Log_DispatchEvent (sample_event ''T''), Log_ErrorDispatching ''boom'',
            Log_DispatchSuccessful])"
proof -
  let ?f = "(Listen_entry [])\<lparr>pc := L_Select\<rparr> :: (unit, string list) listen_frame"
  let ?f' = "(Listen_entry [])\<lparr>pc := L_SendAck 9, handler_state := [''H1'', ''H2''],
        logged := [Log_DispatchEvent (sample_event ''T''), Log_ErrorDispatching ''boom'']\<rparr>
        :: (unit, string list) listen_frame"
  let ?a = "\<lparr>Accepted = sample_event ''T'', ProcessedSuccessfully = 9\<rparr>"
  have err: "fst (DispatchEvent dispatcher_H1_H2_H3_G (Accepted ?a) (handler_state ?f)) = Some ''boom''"
    by (simp add: DispatchEvent_sample_T)
  from Listen_dispatch_error_logged_and_acked [where m = dispatcher_H1_H2_H3_G and excl = False
      and fresh = 4 and fresh'' = 4 and accept = ?a and f = ?f and f' = ?f' and err = "''boom''"]
    sample_Listen_step err
  have 1: "Listen_step dispatcher_H1_H2_H3_G False 4 (Send_Ack (ProcessedSuccessfully ?a) True) ?f'
          = Some (?f'\<lparr>pc := L_Select, logged := logged ?f' @ [Log_DispatchSuccessful]\<rparr>)"
    by blast
  let ?tr = "[Listen_Starts, Publish_Called, Publish_Sent (sample_event ''T''),
        Delivered (sample_event ''T'')]"
  let ?I = "sample_system [[sample_event ''T'', sample_event ''U'']]"
  have run: "observe (exec ?I ?tr) =
     Some (L_SendAck 4, Some (B_WaitAck 4), Some [sample_event ''U''], [], [''H1'', ''H2''],
           [Log_DispatchEvent (sample_event ''T''), Log_ErrorDispatching ''boom''])"
    by (simp add: sample_defs DispatchEvent_sample_T)
  then obtain s where s: "exec ?I ?tr = Some s" and pcs: "pc (manager s) = L_SendAck 4"
    and hs: "handler_state (manager s) = [''H1'', ''H2'']"
    and lg: "logged (manager s) = [Log_DispatchEvent (sample_event ''T''), Log_ErrorDispatching ''boom'']"
    and sd: "sending (publisher s) = Some [sample_event ''U'']"
    and rt: "returned (publisher s) = []"
    by (blast dest: observe_SomeD)
  from Listen_dispatch_error_logged_and_acked [where m = dispatcher_H1_H2_H3_G and excl = False
      and st = "[]" and batches = "[[sample_event ''T'', sample_event ''U'']]" and tr = ?tr
      and s = s and a = 4] s [unfolded sample_system_def] pcs
  obtain g where g: "loop s = Some g"
    and ack_step: "step s Acked = Some (s\<lparr>loop := Some (g\<lparr>loop_pc := B_Select\<rparr>),
             manager := (manager s)\<lparr>pc := L_Select,
                          logged := logged (manager s) @ [Log_DispatchSuccessful]\<rparr>\<rparr>)"
    by blast
  have "exec ?I (?tr @ [Acked]) = Some (s\<lparr>loop := Some (g\<lparr>loop_pc := B_Select\<rparr>),
             manager := (manager s)\<lparr>pc := L_Select,
                          logged := logged (manager s) @ [Log_DispatchSuccessful]\<rparr>\<rparr>)"
    by (simp only: exec_append s option.simps) (simp only: exec.simps ack_step option.simps)
  then have 2: "observe (exec ?I (?tr @ [Acked])) =
     Some (L_Select, Some B_Select, Some [sample_event ''U''], [], [''H1'', ''H2''],
           [Log_DispatchEvent (sample_event ''T''), Log_ErrorDispatching ''boom'',
            Log_DispatchSuccessful])"
    by (simp only: observe_def option.map prod.inject simp_thms)
       (simp add: hs lg sd rt)
  from 1 have ack: "Listen_step dispatcher_H1_H2_H3_G False 4 (Send_Ack 9 True) ?f'
      = Some ((Listen_entry [])\<lparr>pc := L_Select, handler_state := [''H1'', ''H2''],
          logged := [Log_DispatchEvent (sample_event ''T''), Log_ErrorDispatching ''boom'',
                     Log_DispatchSuccessful]\<rparr>)"
    by (simp add: Listen_entry_def)
  from 2 have fin: "observe (exec ?I [Listen_Starts, Publish_Called, Publish_Sent (sample_event ''T''),
        Delivered (sample_event ''T''), Acked]) =
     Some (L_Select, Some B_Select, Some [sample_event ''U''], [], [''H1'', ''H2''],
           [Log_DispatchEvent (sample_event ''T''), Log_ErrorDispatching ''boom'',
            Log_DispatchSuccessful])"
    by (simp only: append.simps)
  from sample_Listen_step ack fin show ?thesis by blast
qed

text \<open>
  Claim C6. At the \<^verbatim>\<open>select\<close>, a value received on the error channel makes \<^verbatim>\<open>Listen\<close>
  log it and return exactly that value; no handler runs, and a returned \<^verbatim>\<open>Listen\<close>
  takes part in no further exchange. The value is not inspected.
\<close>

theorem Listen_transport_error_returns_it:
  "(pc f = L_Select \<longrightarrow>
      Listen_step m excl fresh (Receive_Error err) f
        = Some (f\<lparr>pc := L_Returned Exit_Error err, logged := logged f @ [Log_ErrorReceived err]\<rparr>))
   \<and> (Listen_step m excl fresh (Receive_Error err) f = Some f' \<longrightarrow>
        pc f' = L_Returned Exit_Error err \<and> handler_state f' = handler_state f
        \<and> (\<forall>fresh' c. Listen_step m excl fresh' c f' = None))"
proof -
  have "pc f' = L_Returned Exit_Error err \<and> handler_state f' = handler_state f
        \<and> (\<forall>fresh' c. Listen_step m excl fresh' c f' = None)"
    if "Listen_step m excl fresh (Receive_Error err) f = Some f'"
  proof -
    from that have "pc f' = L_Returned Exit_Error err" and "handler_state f' = handler_state f"
      by (auto split: if_splits)
    then show ?thesis by (simp add: Listen_step_Returned del: Listen_step.simps)
  qed
  then show ?thesis by simp
qed

theorem Listen_transport_error_returns_it_witness:
  "Listen_step dispatcher_H1_H2_H3_G False 4 (Receive_Error (Some ''connection lost''))
     ((Listen_entry [])\<lparr>pc := L_Select\<rparr>)
   = Some ((Listen_entry [])\<lparr>pc := L_Returned Exit_Error (Some ''connection lost''),
        logged := [Log_ErrorReceived (Some ''connection lost'')]\<rparr>)
   \<and> Listen_step dispatcher_H1_H2_H3_G False 4 Receive_Stop
       ((Listen_entry [])\<lparr>pc := L_Returned Exit_Error (Some ''connection lost''),
          logged := [Log_ErrorReceived (Some ''connection lost'')]\<rparr>) = None"
proof -
  let ?f = "(Listen_entry [])\<lparr>pc := L_Select\<rparr> :: (unit, string list) listen_frame"
  let ?f' = "(Listen_entry [])\<lparr>pc := L_Returned Exit_Error (Some ''connection lost''),
        logged := [Log_ErrorReceived (Some ''connection lost'')]\<rparr> :: (unit, string list) listen_frame"
  have sel: "pc ?f = L_Select" by simp
  from Listen_transport_error_returns_it [where f = ?f and m = dispatcher_H1_H2_H3_G
      and excl = False and fresh = 4 and err = "Some ''connection lost''" and f' = ?f'] sel
  have 1: "Listen_step dispatcher_H1_H2_H3_G False 4 (Receive_Error (Some ''connection lost'')) ?f
        = Some (?f\<lparr>pc := L_Returned Exit_Error (Some ''connection lost''),
             logged := logged ?f @ [Log_ErrorReceived (Some ''connection lost'')]\<rparr>)"
    by blast
  then have 2: "Listen_step dispatcher_H1_H2_H3_G False 4 (Receive_Error (Some ''connection lost'')) ?f
        = Some ?f'"
    by (simp add: Listen_entry_def)
  from Listen_transport_error_returns_it [where f = ?f and m = dispatcher_H1_H2_H3_G
      and excl = False and fresh = 4 and err = "Some ''connection lost''" and f' = ?f'] 2
  have "Listen_step dispatcher_H1_H2_H3_G False 4 Receive_Stop ?f' = None"
    by blast
  with 2 show ?thesis by blast
qed

lemma enabled_iff: "e \<in> set (enabled s) \<longleftrightarrow> step s e \<noteq> None"
proof (cases e)
  case (Publish_Sent x)
  then show ?thesis
    by (auto simp: enabled_def to_send_def step_Publish_Sent simp del: step.simps)
next
  case (Delivered x)
  then show ?thesis
    by (auto simp: enabled_def in_flight_def step_Delivered simp del: step.simps)
qed (auto simp: enabled_def simp del: step.simps)

lemma deadlocked_no_step: "deadlocked (Some s) \<Longrightarrow> step s e = None"
  using enabled_iff [of e s] by (simp add: deadlocked_def del: step.simps)

lemma close_blocked_forever:
  assumes "pc (manager s) = L_SendClose c" and "in_flight s \<noteq> []" and "step s e = Some s'"
  shows "pc (manager s') = L_SendClose c \<and> in_flight s' \<noteq> []"
  using assms
  by (cases e)
    (auto simp: step_iff in_flight_def simp del: step.simps split: option.splits loop_pc.splits if_splits)

lemma close_handshake_completes:
  assumes "exec (initial m excl st batches) tr = Some s"
    and "pc (manager s) = L_SendClose c" and "in_flight s = []"
  shows "\<exists>s'. exec s [Close_Requested, Close_Replied] = Some s'
           \<and> pc (manager s') = L_Returned Exit_Stop None"
proof -
  from reachable_invariants [OF assms(1)] have "paired s" by simp
  with assms(2,3) obtain g where g: "loop s = Some g" "loop_pc g = B_Select"
    "loop_options g = options (manager s)"
    by (auto simp: paired_def in_flight_def idle_or_holding_def split: option.splits loop_pc.splits)
  with assms(2) have 1: "step s Close_Requested = Some (s\<lparr>loop := Some (g\<lparr>loop_pc := B_Reply c\<rparr>),
               manager := (manager s)\<lparr>pc := L_RecvClose c\<rparr>\<rparr>)"
    by (simp add: step_Close_Requested del: step.simps)
  have "\<exists>s'. step (s\<lparr>loop := Some (g\<lparr>loop_pc := B_Reply c\<rparr>),
               manager := (manager s)\<lparr>pc := L_RecvClose c\<rparr>\<rparr>) Close_Replied = Some s'
           \<and> pc (manager s') = L_Returned Exit_Stop None"
    by (simp add: step_Close_Replied del: step.simps)
  with 1 show ?thesis by (auto simp del: step.simps)
qed

lemma Listen_returns_nil:
  "exec (initial m excl st batches) tr = Some s \<Longrightarrow> pc (manager s) = L_Returned x r \<Longrightarrow> r = None"
  by (drule reachable_invariants) (auto simp: paired_def split: option.splits)

text \<open>
  Claim C7. The stop branch sends a new channel on the close channel and returns what it
  receives back (\<open>Listen_step\<close> at \<open>Receive_Stop\<close>, \<open>Send_Close\<close>, \<open>Receive_CloseReply\<close>);
  with the in-memory bus a returned \<^verbatim>\<open>Listen\<close> has returned nil (\<open>Listen_returns_nil\<close>), and
  the handshake completes when the bus goroutine holds no event
  (\<open>close_handshake_completes\<close>). But \<^verbatim>\<open>Listen\<close> need not return: when the bus goroutine
  has taken an event from the publisher and the \<^verbatim>\<open>select\<close> of line 164 picks the stop
  branch, \<^verbatim>\<open>Listen\<close> blocks at line 178 and the goroutine at line 226, for ever
  (\<open>close_blocked_forever\<close>). The run below ends in such a state, where no step is
  possible.
\<close>

theorem stop_with_event_in_flight_deadlocks:
  "observe (exec (sample_system [[sample_event ''U'']])
      [Listen_Starts, Publish_Called, Publish_Sent (sample_event ''U''), Publish_Returned,
       Stop_Received]) =
     Some (L_SendClose 5,
           Some (B_Hand \<lparr>Accepted = sample_event ''U'', ProcessedSuccessfully = 4\<rparr>),
           None, [None], [], [Log_Stopping])
   \<and> deadlocked (exec (sample_system [[sample_event ''U'']])
      [Listen_Starts, Publish_Called, Publish_Sent (sample_event ''U''), Publish_Returned,
       Stop_Received])"
  by (simp add: sample_defs deadlocked_def enabled_def to_send_def in_flight_def)

text \<open>
  Claim C3. The goroutine of \<^verbatim>\<open>ReceiveEvents\<close> does not end after it has answered a close
  request: it is back at its \<^verbatim>\<open>select\<close>. In the run below a \<^verbatim>\<open>PublishEvents\<close> called
  after the close reply hands its event to the goroutine and returns nil. The goroutine
  then offers the event on \<^verbatim>\<open>options.ReceiveEvent\<close>: taken on its own, after a close
  request and its reply it takes a published event and delivers it to whoever receives
  from that channel.
\<close>

theorem loop_runs_on_after_close:
  "observe (exec (sample_system [[sample_event ''U'']])
      [Listen_Starts, Stop_Received, Close_Requested, Close_Replied, Publish_Called,
       Publish_Sent (sample_event ''U''), Publish_Returned]) =
     Some (L_Returned Exit_Stop None,
           Some (B_Hand \<lparr>Accepted = sample_event ''U'', ProcessedSuccessfully = 5\<rparr>),
           None, [None], [], [Log_Stopping, Log_Stopped])
   \<and> loop_run \<lparr>publishedEventsChannel = 0, startReceiving = True\<rparr>
       [(4, Take_Close 1 4), (5, Give_Reply 4 None), (5, Take_Published 0 (sample_event ''U'')),
        (6, Give_Event 3 \<lparr>Accepted = sample_event ''U'', ProcessedSuccessfully = 5\<rparr>)]
       \<lparr>loop_options = \<lparr>Close = 1, Error = 2, ReceiveEvent = 3, Exclusive = False\<rparr>,
        loop_pc = B_Select\<rparr>
     = Some \<lparr>loop_options = \<lparr>Close = 1, Error = 2, ReceiveEvent = 3, Exclusive = False\<rparr>,
             loop_pc = B_WaitAck 5\<rparr>"
  by (simp add: sample_defs)

end
